theory Spec2Isabelle
  imports Complex_Main "HOL-Library.Sublist" "HOL-Library.AList"
begin

section \<open>JavaScript numbers\<close>

text \<open>
  A JavaScript number is an IEEE double. The code of the repository compares numbers,
  takes maxima, tests \<^verbatim>\<open>Number.isFinite\<close> and, in one place, multiplies by 100. The model keeps
  the three non-finite values apart and names a finite double by the real it denotes, which
  is exact for comparisons and maxima. The one multiplication is not exact on doubles (it
  rounds, and overflows to an infinity): it is left to the runtime, see below. The sort
  comparator \<^verbatim>\<open>b.ts - a.ts\<close> is only read for its sign, which for finite doubles is the sign of
  the comparison of \<open>b.ts\<close> with \<open>a.ts\<close>.
\<close>

datatype jsnum = NaN | NegInf | Fin real | PosInf

fun isFinite :: "jsnum \<Rightarrow> bool" where
  "isFinite (Fin _) = True"
| "isFinite _ = False"

text \<open>The relational operators \<^verbatim>\<open><\<close>, \<^verbatim>\<open><=\<close>, \<^verbatim>\<open>>\<close>, \<^verbatim>\<open>>=\<close>: false as soon as an operand is NaN.\<close>

fun js_lt :: "jsnum \<Rightarrow> jsnum \<Rightarrow> bool" where
  "js_lt NaN _ = False"
| "js_lt _ NaN = False"
| "js_lt PosInf _ = False"
| "js_lt _ NegInf = False"
| "js_lt NegInf _ = True"
| "js_lt (Fin a) (Fin b) = (a < b)"
| "js_lt (Fin a) PosInf = True"

definition js_le :: "jsnum \<Rightarrow> jsnum \<Rightarrow> bool" where
  "js_le a b = (a \<noteq> NaN \<and> b \<noteq> NaN \<and> (a = b \<or> js_lt a b))"

definition js_gt :: "jsnum \<Rightarrow> jsnum \<Rightarrow> bool" where
  "js_gt a b = js_lt b a"

definition js_ge :: "jsnum \<Rightarrow> jsnum \<Rightarrow> bool" where
  "js_ge a b = js_le b a"

text \<open>\<^verbatim>\<open>Math.max(a, b)\<close>: NaN when an argument is NaN, else the larger.\<close>

definition Math_max :: "jsnum \<Rightarrow> jsnum \<Rightarrow> jsnum" where
  "Math_max a b = (if a = NaN \<or> b = NaN then NaN else if js_lt a b then b else a)"

text \<open>\<^verbatim>\<open>Math.max(...xs)\<close> on a list: \<^verbatim>\<open>-Infinity\<close> for no argument.\<close>

definition Math_max_list :: "jsnum list \<Rightarrow> jsnum" where
  "Math_max_list xs = foldl Math_max NegInf xs"

section \<open>Agents: the fallback policies\<close>

datatype phase = red | amber | green

record TrafficPlan =
  ns :: phase
  eo :: phase
  durationSec :: jsnum

datatype traffic_strategy = fallback_ns | fallback_ew | traffic_policy

record TrafficPlanDecision =
  plan :: TrafficPlan
  strategy :: traffic_strategy

record TrafficConfig =
  t_backendBaseUrl :: string
  t_controllerUrl :: string
  t_inferenceUrl :: "string option"
  threshold :: jsnum
  d0 :: jsnum
  d1 :: jsnum

datatype approach = NS | EW

text \<open>\<^verbatim>\<open>fallbackPlan\<close> of trafficGraph.ts.\<close>

definition fallbackPlan :: "jsnum \<Rightarrow> jsnum \<Rightarrow> TrafficConfig \<Rightarrow> TrafficPlanDecision" where
  "fallbackPlan queueNS queueEW cfg =
     (let dominant = (if js_ge queueNS queueEW then NS else EW);
          peakQueue = Math_max queueNS queueEW;
          duration = (if js_gt peakQueue (threshold cfg) then d1 cfg else d0 cfg)
      in if dominant = NS
         then \<lparr>plan = \<lparr>ns = green, eo = red, durationSec = duration\<rparr>, strategy = fallback_ns\<rparr>
         else \<lparr>plan = \<lparr>ns = red, eo = green, durationSec = duration\<rparr>, strategy = fallback_ew\<rparr>)"

datatype barrier_state = OPEN | CLOSING | CLOSED | OPENING

record RailCommand =
  state :: barrier_state

datatype rail_strategy = eta_threshold | rail_policy

record RailCommandDecision =
  command :: RailCommand
  r_strategy :: rail_strategy

record RailConfig =
  r_backendBaseUrl :: string
  r_controllerUrl :: string
  closeLeadMs :: jsnum
  r_inferenceUrl :: "string option"

text \<open>\<^verbatim>\<open>fallbackCommand\<close> of railGraph.ts.\<close>

definition fallbackCommand :: "jsnum \<Rightarrow> RailConfig \<Rightarrow> RailCommandDecision" where
  "fallbackCommand eta cfg =
     (if js_le eta (closeLeadMs cfg)
      then \<lparr>command = \<lparr>state = CLOSED\<rparr>, r_strategy = eta_threshold\<rparr>
      else \<lparr>command = \<lparr>state = OPEN\<rparr>, r_strategy = eta_threshold\<rparr>)"

section \<open>Backend: the decision log\<close>

definition DECISION_HISTORY_LIMIT :: nat where
  "DECISION_HISTORY_LIMIT = 1000"

text \<open>
  \<^verbatim>\<open>recordDecision\<close> of control.ts: \<^verbatim>\<open>push\<close>, then \<^verbatim>\<open>splice(0, length - LIMIT)\<close> when the
  log is over the limit. The log is passed in and returned.
\<close>

definition recordDecision :: "'a \<Rightarrow> 'a list \<Rightarrow> 'a list" where
  "recordDecision entry ds =
     (let pushed = ds @ [entry]
      in if length pushed > DECISION_HISTORY_LIMIT
         then drop (length pushed - DECISION_HISTORY_LIMIT) pushed
         else pushed)"

text \<open>A sequence of \<^verbatim>\<open>recordDecision\<close> calls, oldest call first.\<close>

fun recordAll :: "'a list \<Rightarrow> 'a list \<Rightarrow> 'a list" where
  "recordAll ds [] = ds"
| "recordAll ds (e # es) = recordAll (recordDecision e ds) es"

section \<open>JSON values\<close>

text \<open>
  Request bodies, measurement values and oracle replies are untyped JSON. An object is
  the list of its properties, looked up by name.
\<close>

datatype jsval =
    JUndefined
  | JNull
  | JBool bool
  | JNum jsnum
  | JStr string
  | JArr "jsval list"
  | JObj "(string \<times> jsval) list"

text \<open>Property access \<^verbatim>\<open>v.name\<close> (on a value that is not null or undefined).\<close>

fun field :: "jsval \<Rightarrow> string \<Rightarrow> jsval" where
  "field (JObj kvs) name = (case map_of kvs name of None \<Rightarrow> JUndefined | Some v \<Rightarrow> v)"
| "field _ name = JUndefined"

text \<open>\<^verbatim>\<open>a ?? b\<close>.\<close>

definition coalesce :: "jsval \<Rightarrow> jsval \<Rightarrow> jsval" where
  "coalesce a b = (if a = JUndefined \<or> a = JNull then b else a)"

text \<open>Truthiness, as \<^verbatim>\<open>if (v)\<close> and \<^verbatim>\<open>!v\<close> read it.\<close>

fun truthy :: "jsval \<Rightarrow> bool" where
  "truthy JUndefined = False"
| "truthy JNull = False"
| "truthy (JBool b) = b"
| "truthy (JNum n) = (n \<noteq> NaN \<and> n \<noteq> Fin 0)"
| "truthy (JStr s) = (s \<noteq> [])"
| "truthy (JArr _) = True"
| "truthy (JObj _) = True"

text \<open>\<^verbatim>\<open>typeof v === 'object'\<close> together with truthiness: an object or an array.\<close>

fun is_object :: "jsval \<Rightarrow> bool" where
  "is_object (JArr _) = True"
| "is_object (JObj _) = True"
| "is_object _ = False"

section \<open>The runtime\<close>

text \<open>
  Four operations of the language that the code of the repository calls are not defined
  by it, and are parameters of the model, together called the runtime:
  \<^item> \<^verbatim>\<open>Number(v)\<close> on strings, arrays and objects (on undefined, null, booleans and numbers
    it is fixed below);
  \<^item> the product \<^verbatim>\<open>a * b\<close> of two finite doubles: the real product rounded to a double, or
    an infinity when it overflows;
  \<^item> \<^verbatim>\<open>String.prototype.toLowerCase\<close>, the Unicode case conversion of a whole string;
  \<^item> \<^verbatim>\<open>String.prototype.trim\<close>, which strips Unicode white space and line terminators.
  Every statement below holds for every runtime. A string is the list of the bytes of its
  UTF-8 encoding, so that equality of strings, emptiness and containment of an ASCII word
  are those of the lists.
\<close>

record runtime =
  rt_number :: "jsval \<Rightarrow> jsnum"
  rt_times :: "real \<Rightarrow> real \<Rightarrow> jsnum"
  rt_toLowerCase :: "string \<Rightarrow> string"
  rt_trim :: "string \<Rightarrow> string"

fun Number :: "runtime \<Rightarrow> jsval \<Rightarrow> jsnum" where
  "Number rt JUndefined = NaN"
| "Number rt JNull = Fin 0"
| "Number rt (JBool b) = Fin (if b then 1 else 0)"
| "Number rt (JNum n) = n"
| "Number rt v = rt_number rt v"

definition toLowerCase :: "runtime \<Rightarrow> string \<Rightarrow> string" where
  "toLowerCase rt s = rt_toLowerCase rt s"

definition trim :: "runtime \<Rightarrow> string \<Rightarrow> string" where
  "trim rt s = rt_trim rt s"

section \<open>Backend: the measurement store (ingest.ts)\<close>

record Measurement =
  m_kind :: string
  m_location :: string
  m_value :: jsval
  m_metric :: "jsnum option"
  m_ts :: jsnum

text \<open>The numbers among the listed properties that \<^verbatim>\<open>Number.isFinite\<close> keeps.\<close>

definition finiteFields :: "runtime \<Rightarrow> jsval \<Rightarrow> string list \<Rightarrow> jsnum list" where
  "finiteFields rt data names = filter isFinite (map (\<lambda>n. Number rt (field data n)) names)"

text \<open>The properties \<^verbatim>\<open>deriveMetric\<close> reads, in the order it lists them.\<close>

definition congestionNames :: "string list" where
  "congestionNames =
     [''congestion'', ''congestion_index'', ''congestionIndex'',
      ''avg_queue_len_NS'', ''avg_queue_len_EW'', ''queue_ns'', ''queue_ew'',
      ''queueNS'', ''queueEW'', ''avg_queue_len'', ''queue'']"

definition waitNames :: "string list" where
  "waitNames = [''wait_time_NS'', ''wait_time_EW'', ''wait_ns'', ''wait_ew'']"

text \<open>\<^verbatim>\<open>data.progress ?? data.flow ?? data.utilisation ?? data.utilization\<close>.\<close>

definition progressField :: "jsval \<Rightarrow> jsval" where
  "progressField data =
     coalesce (coalesce (coalesce (field data ''progress'') (field data ''flow''))
                        (field data ''utilisation''))
              (field data ''utilization'')"

text \<open>\<^verbatim>\<open>data.etaMs ?? data.eta_ms ?? data.eta\<close>.\<close>

definition etaField :: "jsval \<Rightarrow> jsval" where
  "etaField data = coalesce (coalesce (field data ''etaMs'') (field data ''eta_ms'')) (field data ''eta'')"

text \<open>\<^verbatim>\<open>deriveMetric\<close>: \<^verbatim>\<open>null\<close> is \<open>None\<close>.\<close>

definition deriveMetric :: "runtime \<Rightarrow> string \<Rightarrow> jsval \<Rightarrow> jsnum option" where
  "deriveMetric rt kind raw =
     (case raw of
        JNum n \<Rightarrow> (if isFinite n then Some n else None)
      | _ \<Rightarrow>
        if \<not> is_object raw then None
        else if kind = ''traffic'' then
          (let candidates = finiteFields rt raw congestionNames
           in if candidates \<noteq> [] then Some (Math_max_list candidates)
              else
                (case Number rt (progressField raw) of
                   Fin progress \<Rightarrow>
                     Some (if progress \<le> 1 then rt_times rt progress 100 else Fin progress)
                 | _ \<Rightarrow>
                   (let waits = finiteFields rt raw waitNames
                    in if waits \<noteq> [] then Some (Math_max_list waits) else None)))
        else if kind = ''rail'' then
          (let eta = Number rt (etaField raw)
           in if isFinite eta then Some eta else None)
        else None)"

text \<open>
  The store \<^verbatim>\<open>mem\<close> of db.ts. A \<^verbatim>\<open>Map\<close> iterates in the order its keys were first set:
  the per-location map is an association list updated in place. The decision log holds
  references to \<^verbatim>\<open>DecisionLog\<close> objects (see the control routes); the measurement routes do
  not touch it.
\<close>

type_synonym addr = nat

record MemoryStore =
  measurements :: "Measurement list"
  decisions :: "addr list"
  recent :: "string \<rightharpoonup> Measurement list"
  latestByLocation :: "string \<rightharpoonup> (string \<times> Measurement) list"

definition mem_init :: MemoryStore where
  "mem_init = \<lparr>measurements = [], decisions = [], recent = Map.empty,
                latestByLocation = Map.empty\<rparr>"

text \<open>\<^verbatim>\<open>upsertRecent(kind, item, keep = 200)\<close>.\<close>

definition upsertRecent :: "string \<Rightarrow> Measurement \<Rightarrow> nat \<Rightarrow> MemoryStore \<Rightarrow> MemoryStore" where
  "upsertRecent kind item keep s =
     (let bucket = (case recent s kind of None \<Rightarrow> [] | Some b \<Rightarrow> b) @ [item];
          bucket' = (if length bucket > keep then drop (length bucket - keep) bucket else bucket);
          perLocation = (case latestByLocation s kind of None \<Rightarrow> [] | Some m \<Rightarrow> m)
      in s\<lparr>recent := (recent s)(kind \<mapsto> bucket'),
           latestByLocation :=
             (latestByLocation s)(kind \<mapsto> AList.update (m_location item) item perLocation)\<rparr>)"

record SnapshotEntry =
  se_location :: string
  se_value :: jsnum
  se_metric :: "jsnum option"
  se_details :: jsval
  se_ts :: jsnum

definition toSnapshotEntry :: "runtime \<Rightarrow> string \<Rightarrow> Measurement \<Rightarrow> SnapshotEntry" where
  "toSnapshotEntry rt kind entry =
     (let metric = (case m_metric entry of
                      Some n \<Rightarrow> if isFinite n then Some n else deriveMetric rt kind (m_value entry)
                    | None \<Rightarrow> deriveMetric rt kind (m_value entry));
          numericMetric = (case metric of
                             Some n \<Rightarrow> if isFinite n then Some n else None
                           | None \<Rightarrow> None)
      in \<lparr>se_location = m_location entry,
          se_value = (case numericMetric of None \<Rightarrow> Fin 0 | Some n \<Rightarrow> n),
          se_metric = numericMetric,
          se_details = m_value entry,
          se_ts = m_ts entry\<rparr>)"

text \<open>
  The body of \<^verbatim>\<open>POST /ingest\<close>. \<^verbatim>\<open>kind\<close> and \<^verbatim>\<open>location\<close> are strings, as the
  \<^verbatim>\<open>Measurement\<close> interface declares them, or missing; the empty string is falsy.
\<close>

record IngestBody =
  b_kind :: "string option"
  b_location :: "string option"
  b_value :: jsval
  b_ts :: jsval

datatype ingest_response = IngestRejected nat string | IngestStored Measurement

text \<open>\<^verbatim>\<open>POST /ingest\<close>; \<open>now\<close> is what \<^verbatim>\<open>Date.now()\<close> returns.\<close>

definition post_ingest ::
  "runtime \<Rightarrow> real \<Rightarrow> IngestBody \<Rightarrow> MemoryStore \<Rightarrow> ingest_response \<times> MemoryStore" where
  "post_ingest rt now body s =
     (case (b_kind body, b_location body) of
        (Some kind, Some location) \<Rightarrow>
          if kind = [] \<or> location = [] \<or> b_value body = JUndefined
          then (IngestRejected 400 ''kind, location, value required'', s)
          else
            (let timestamp = (case b_ts body of JNum n \<Rightarrow> n | _ \<Rightarrow> Fin now);
                 metric = deriveMetric rt kind (b_value body);
                 item = \<lparr>m_kind = kind, m_location = location, m_value = b_value body,
                         m_metric = (case metric of
                                       Some n \<Rightarrow> if isFinite n then Some n else None
                                     | None \<Rightarrow> None),
                         m_ts = timestamp\<rparr>;
                 s1 = s\<lparr>measurements := measurements s @ [item]\<rparr>
             in (IngestStored item, upsertRecent kind item 200 s1))
      | _ \<Rightarrow> (IngestRejected 400 ''kind, location, value required'', s))"

text \<open>\<^verbatim>\<open>Array.prototype.findIndex\<close>: \<open>None\<close> is \<^verbatim>\<open>-1\<close>.\<close>

fun findIndex :: "('a \<Rightarrow> bool) \<Rightarrow> 'a list \<Rightarrow> nat option" where
  "findIndex P [] = None"
| "findIndex P (x # xs) =
     (if P x then Some 0 else (case findIndex P xs of None \<Rightarrow> None | Some i \<Rightarrow> Some (Suc i)))"

text \<open>\<^verbatim>\<open>String(req.query.kind || "traffic")\<close>.\<close>

definition queryKind :: "string option \<Rightarrow> string" where
  "queryKind q = (case q of None \<Rightarrow> ''traffic'' | Some k \<Rightarrow> if k = [] then ''traffic'' else k)"

text \<open>\<^verbatim>\<open>GET /ingest/next\<close>: the item of the reply (\<open>None\<close> is \<^verbatim>\<open>null\<close>) and the store.\<close>

definition get_next :: "string option \<Rightarrow> MemoryStore \<Rightarrow> Measurement option \<times> MemoryStore" where
  "get_next q s =
     (let kind = queryKind q in
      case findIndex (\<lambda>m. m_kind m = kind) (measurements s) of
        None \<Rightarrow> (None, s)
      | Some idx \<Rightarrow>
          (Some (measurements s ! idx),
           s\<lparr>measurements := take idx (measurements s) @ drop (Suc idx) (measurements s)\<rparr>))"

record SnapshotResponse =
  sr_kind :: string
  sr_updated :: real
  sr_latest :: "SnapshotEntry list"
  sr_history :: "SnapshotEntry list"

text \<open>
  \<^verbatim>\<open>GET /ingest/snapshot\<close>. \<open>limitRaw\<close> is the value of \<^verbatim>\<open>Number(req.query.limit ?? 50)\<close>.
  The limit is clamped to 1..500; \<^verbatim>\<open>slice(-limit)\<close> keeps the last \<open>\<lfloor>limit\<rfloor>\<close> entries. The
  handler only reads the store; it is returned as it was.
\<close>

definition snapshotLimit :: "jsnum \<Rightarrow> nat" where
  "snapshotLimit limitRaw =
     (case limitRaw of
        Fin l \<Rightarrow> nat \<lfloor>max 1 (min 500 l)\<rfloor>
      | _ \<Rightarrow> 50)"

definition get_snapshot ::
  "runtime \<Rightarrow> real \<Rightarrow> string option \<Rightarrow> jsnum \<Rightarrow> MemoryStore \<Rightarrow> SnapshotResponse \<times> MemoryStore" where
  "get_snapshot rt now q limitRaw s =
     (let kind = queryKind q;
          limit = snapshotLimit limitRaw;
          historyBucket = (case recent s kind of None \<Rightarrow> [] | Some b \<Rightarrow> b);
          history = map (toSnapshotEntry rt kind)
                      (drop (length historyBucket - limit) historyBucket);
          latestMap = (case latestByLocation s kind of None \<Rightarrow> [] | Some m \<Rightarrow> m);
          latest = map (toSnapshotEntry rt kind) (map snd latestMap)
      in (\<lparr>sr_kind = kind, sr_updated = now, sr_latest = latest, sr_history = history\<rparr>, s))"

text \<open>A client's view of the measurement routes: requests, replies, and a run of requests.\<close>

datatype ingest_request =
    PostIngest real IngestBody
  | GetNext "string option"
  | GetSnapshot real "string option" jsnum

datatype ingest_reply =
    IngestReply ingest_response
  | NextReply "Measurement option"
  | SnapshotReply SnapshotResponse

fun serve :: "runtime \<Rightarrow> ingest_request \<Rightarrow> MemoryStore \<Rightarrow> ingest_reply \<times> MemoryStore" where
  "serve rt (PostIngest now body) s = (case post_ingest rt now body s of (r, s') \<Rightarrow> (IngestReply r, s'))"
| "serve rt (GetNext q) s = (case get_next q s of (r, s') \<Rightarrow> (NextReply r, s'))"
| "serve rt (GetSnapshot now q l) s = (case get_snapshot rt now q l s of (r, s') \<Rightarrow> (SnapshotReply r, s'))"

fun serveAll :: "runtime \<Rightarrow> ingest_request list \<Rightarrow> MemoryStore \<Rightarrow> ingest_reply list \<times> MemoryStore" where
  "serveAll rt [] s = ([], s)"
| "serveAll rt (q # qs) s =
     (case serve rt q s of (r, s') \<Rightarrow> (case serveAll rt qs s' of (rs, s'') \<Rightarrow> (r # rs, s'')))"

text \<open>The measurements of a kind that a run stored, and those it handed out, in order.\<close>

fun storedOf :: "string \<Rightarrow> ingest_reply list \<Rightarrow> Measurement list" where
  "storedOf k [] = []"
| "storedOf k (IngestReply (IngestStored m) # rs) =
     (if m_kind m = k then m # storedOf k rs else storedOf k rs)"
| "storedOf k (_ # rs) = storedOf k rs"

fun handedOut :: "string \<Rightarrow> ingest_request list \<Rightarrow> ingest_reply list \<Rightarrow> Measurement list" where
  "handedOut k (GetNext q # qs) (NextReply (Some m) # rs) =
     (if queryKind q = k then m # handedOut k qs rs else handedOut k qs rs)"
| "handedOut k (_ # qs) (_ # rs) = handedOut k qs rs"
| "handedOut k _ _ = []"

definition pending :: "string \<Rightarrow> MemoryStore \<Rightarrow> Measurement list" where
  "pending k s = filter (\<lambda>m. m_kind m = k) (measurements s)"

section \<open>Backend: the consensus ledger (services/hedera.ts)\<close>

datatype AgentKind = traffic | rail

definition agentName :: "AgentKind \<Rightarrow> string" where
  "agentName a = (case a of traffic \<Rightarrow> ''traffic'' | rail \<Rightarrow> ''rail'')"

record DecisionLog =
  agent :: AgentKind
  location :: "string option"
  source :: "string option"
  observation :: jsval
  decision :: jsval
  status :: string
  ts :: real
  confidence :: jsval
  actionIndex :: jsval
  policyMetadata :: jsval
  reasoning :: jsval
  consensusTimestamp :: "string option"
  topicId :: "string option"
  sequenceNumber :: "string option"

record ConsensusLogResult =
  c_topicId :: string
  c_consensusTimestamp :: "string option"
  c_sequenceNumber :: "string option"

text \<open>
  The ledger is the environment: whether operator credentials are configured, what
  setting up the client and \<^verbatim>\<open>ensureTopic\<close> return or throw for an agent on this call (the
  topic cache is part of it), and what submitting the message returns (consensus timestamp
  and sequence number) or throws. A thrown error is its message.
\<close>

record Ledger =
  operator :: bool
  ensureTopic :: "AgentKind \<Rightarrow> string + string"
  submitMessage :: "string + (string option \<times> string option)"

text \<open>\<^verbatim>\<open>submitDecisionToConsensus\<close>: what the promise settles to (\<open>Inl\<close>: rejected).\<close>

definition submitDecisionToConsensus ::
  "Ledger \<Rightarrow> AgentKind \<Rightarrow> DecisionLog \<Rightarrow> string + ConsensusLogResult option" where
  "submitDecisionToConsensus ledger ag entry =
     (if \<not> operator ledger then Inr None
      else
        (case ensureTopic ledger ag of
           Inl err \<Rightarrow> Inl err
         | Inr topic \<Rightarrow>
             (case submitMessage ledger of
                Inl err \<Rightarrow> Inl err
              | Inr (stamp, seqno) \<Rightarrow>
                  Inr (Some \<lparr>c_topicId = topic, c_consensusTimestamp = stamp,
                             c_sequenceNumber = seqno\<rparr>))))"

section \<open>Backend: the control routes (control.ts)\<close>

text \<open>
  A \<^verbatim>\<open>DecisionLog\<close> entry is an object: the log holds a reference to it, and the handler of
  \<^verbatim>\<open>POST /control/decisions/log\<close> writes to it after it was recorded. The backend is the
  store together with these objects.
\<close>

record Backend =
  mem :: MemoryStore
  objects :: "addr \<rightharpoonup> DecisionLog"
  next_addr :: addr

definition backend_init :: Backend where
  "backend_init = \<lparr>mem = mem_init, objects = Map.empty, next_addr = 0\<rparr>"

definition alloc :: "DecisionLog \<Rightarrow> Backend \<Rightarrow> addr \<times> Backend" where
  "alloc entry b =
     (next_addr b, b\<lparr>objects := (objects b)(next_addr b \<mapsto> entry), next_addr := Suc (next_addr b)\<rparr>)"

text \<open>\<^verbatim>\<open>recordDecision(entry)\<close> on the store.\<close>

definition record_entry :: "addr \<Rightarrow> Backend \<Rightarrow> Backend" where
  "record_entry a b = b\<lparr>mem := (mem b)\<lparr>decisions := recordDecision a (decisions (mem b))\<rparr>\<rparr>"

text \<open>The entries of the log, oldest first, as a reader of \<^verbatim>\<open>mem.decisions\<close> sees them.\<close>

definition logEntries :: "Backend \<Rightarrow> DecisionLog list" where
  "logEntries b = List.map_filter (objects b) (decisions (mem b))"

definition coerceString :: "runtime \<Rightarrow> jsval \<Rightarrow> string option" where
  "coerceString rt v =
     (case v of
        JStr s \<Rightarrow> (let trimmed = trim rt s in if trimmed = [] then None else Some trimmed)
      | _ \<Rightarrow> None)"

definition coerceLocation :: "runtime \<Rightarrow> jsval \<Rightarrow> string option" where
  "coerceLocation rt v =
     (case v of
        JStr s \<Rightarrow> coerceString rt v
      | _ \<Rightarrow>
        if is_object v then
          (case field v ''location'' of
             JStr s \<Rightarrow> coerceString rt (JStr s)
           | _ \<Rightarrow>
             (case field v ''id'' of
                JStr s \<Rightarrow> coerceString rt (JStr s)
              | _ \<Rightarrow>
                (case field v ''junction'' of
                   JStr s \<Rightarrow> coerceString rt (JStr s)
                 | _ \<Rightarrow> None)))
        else None)"

definition normalizeReasoning :: "runtime \<Rightarrow> jsval \<Rightarrow> jsval" where
  "normalizeReasoning rt v =
     (case v of
        JStr s \<Rightarrow> (let trimmed = trim rt s in if trimmed = [] then JUndefined else JStr trimmed)
      | _ \<Rightarrow> if is_object v then v else JUndefined)"

definition optNumber :: "jsval \<Rightarrow> string \<Rightarrow> (string \<times> jsval) list" where
  "optNumber body name = (case field body name of JNum n \<Rightarrow> [(name, JNum n)] | _ \<Rightarrow> [])"

definition parseTrafficObservation :: "jsval \<Rightarrow> string + jsval" where
  "parseTrafficObservation body =
     (case (field body ''queue_ns'', field body ''queue_ew'') of
        (JNum a, JNum b) \<Rightarrow>
          Inr (JObj ([(''queue_ns'', JNum a), (''queue_ew'', JNum b)]
                     @ optNumber body ''wait_ns'' @ optNumber body ''wait_ew''
                     @ optNumber body ''is_ns_green'' @ optNumber body ''progress''))
      | _ \<Rightarrow> Inl ''queue_ns and queue_ew numeric fields are required'')"

definition Math_min :: "jsnum \<Rightarrow> jsnum \<Rightarrow> jsnum" where
  "Math_min a b = (if a = NaN \<or> b = NaN then NaN else if js_lt b a then b else a)"

definition parseRailObservation :: "jsval \<Rightarrow> string + jsval" where
  "parseRailObservation body =
     (case (field body ''eta_ms'', field body ''barrier_closed'') of
        (JNum eta, JNum barrier_closed) \<Rightarrow>
          (let barrier = Math_max (Fin 0) (Math_min (Fin 1) barrier_closed)
           in Inr (JObj [(''eta_ms'', JNum eta), (''barrier_closed'', JNum barrier)]))
      | _ \<Rightarrow> Inl ''eta_ms and barrier_closed numeric fields are required'')"

text \<open>\<^verbatim>\<open>String.prototype.includes\<close>.\<close>

fun starts_with :: "string \<Rightarrow> string \<Rightarrow> bool" where
  "starts_with s [] = True"
| "starts_with [] (p # ps) = False"
| "starts_with (c # cs) (p # ps) = (c = p \<and> starts_with cs ps)"

fun str_includes :: "string \<Rightarrow> string \<Rightarrow> bool" where
  "str_includes [] pat = (pat = [])"
| "str_includes (c # cs) pat = (starts_with (c # cs) pat \<or> str_includes cs pat)"

datatype 'a reply = Replied 'a | Failed nat string

text \<open>The \<^verbatim>\<open>catch\<close> block of the two inference routes.\<close>

definition inferenceFailed :: "runtime \<Rightarrow> string \<Rightarrow> 'a reply" where
  "inferenceFailed rt message =
     Failed (if str_includes (toLowerCase rt message) ''required'' then 400 else 502) message"

record InferReply =
  ir_outcome :: jsval
  ir_actionIndex :: jsval
  ir_confidence :: jsval
  ir_location :: "string option"
  ir_source :: "string option"
  ir_reasoning :: jsval
  ir_consensus :: "ConsensusLogResult option"

text \<open>
  \<^verbatim>\<open>POST /control/traffic/infer\<close> and \<^verbatim>\<open>POST /control/rail/infer\<close> are the same handler up
  to the agent, the observation parser, the reply's property (\<^verbatim>\<open>plan\<close> or \<^verbatim>\<open>command\<close>) and
  the traffic route's extra look at \<^verbatim>\<open>junction\<close>. The whole body of the handler is inside
  one \<^verbatim>\<open>try\<close>: an error thrown by the parser, by the inference oracle, by reading a
  property of a null reply, or by \<^verbatim>\<open>submitDecisionToConsensus\<close> lands in the \<^verbatim>\<open>catch\<close>
  block. \<open>oracle\<close> is the inference service, \<open>now\<close> is \<^verbatim>\<open>Date.now()\<close>.
\<close>

definition infer_route ::
  "runtime \<Rightarrow> AgentKind \<Rightarrow> (jsval \<Rightarrow> string + jsval) \<Rightarrow> string \<Rightarrow> bool \<Rightarrow>
   Ledger \<Rightarrow> (jsval \<Rightarrow> string + jsval) \<Rightarrow> real \<Rightarrow> jsval \<Rightarrow> Backend \<Rightarrow> InferReply reply \<times> Backend" where
  "infer_route rt ag parse outcomeName withJunction ledger oracle now body b =
     (let rawPayload = coalesce body (JObj []);
          observationInput = coalesce (field rawPayload ''observation'') rawPayload;
          fromObservation = coerceLocation rt (field observationInput ''location'');
          loc = (case coerceLocation rt (field rawPayload ''location'') of
                   Some l \<Rightarrow> Some l
                 | None \<Rightarrow>
                     if withJunction then
                       (case coerceLocation rt (field rawPayload ''junction'') of
                          Some l \<Rightarrow> Some l
                        | None \<Rightarrow> fromObservation)
                     else fromObservation);
          src = coerceString rt (coalesce (field rawPayload ''source'') (field observationInput ''source''))
      in case parse observationInput of
           Inl err \<Rightarrow> (inferenceFailed rt err, b)
         | Inr obs \<Rightarrow>
             (case oracle obs of
                Inl err \<Rightarrow> (inferenceFailed rt err, b)
              | Inr inference \<Rightarrow>
                  if inference = JNull \<or> inference = JUndefined
                  then (inferenceFailed rt ''Cannot read properties of null'', b)
                  else
                    (let reasoning_obj = JObj ([(''method'', JStr ''policy_inference''),
                                               (''stage'', JStr ''backend_inference''),
                                               (''selectedAction'', field inference ''action_index''),
                                               (''confidence'', field inference ''confidence'')]
                                              @ (if truthy (field inference ''policy_metadata'')
                                                 then [(''policyMetadata'', field inference ''policy_metadata'')]
                                                 else []));
                         entry = \<lparr>agent = ag, location = loc, source = src, observation = obs,
                                  decision = field inference outcomeName, status = ''APPLIED'',
                                  ts = now, confidence = field inference ''confidence'',
                                  actionIndex = field inference ''action_index'',
                                  policyMetadata = field inference ''policy_metadata'',
                                  reasoning = reasoning_obj, consensusTimestamp = None,
                                  topicId = None, sequenceNumber = None\<rparr>
                     in case submitDecisionToConsensus ledger ag entry of
                          Inl err \<Rightarrow> (inferenceFailed rt err, b)
                        | Inr consensus \<Rightarrow>
                            (let entry' = (case consensus of
                                             None \<Rightarrow> entry
                                           | Some c \<Rightarrow>
                                               entry\<lparr>consensusTimestamp := c_consensusTimestamp c,
                                                     topicId := Some (c_topicId c),
                                                     sequenceNumber := c_sequenceNumber c\<rparr>)
                             in case alloc entry' b of
                                  (a, b1) \<Rightarrow>
                                    (Replied \<lparr>ir_outcome = field inference outcomeName,
                                              ir_actionIndex = field inference ''action_index'',
                                              ir_confidence = field inference ''confidence'',
                                              ir_location = loc, ir_source = src,
                                              ir_reasoning = reasoning_obj,
                                              ir_consensus = consensus\<rparr>,
                                     record_entry a b1)))))"

definition post_traffic_infer ::
  "runtime \<Rightarrow> Ledger \<Rightarrow> (jsval \<Rightarrow> string + jsval) \<Rightarrow> real \<Rightarrow> jsval \<Rightarrow> Backend
     \<Rightarrow> InferReply reply \<times> Backend" where
  "post_traffic_infer rt = infer_route rt traffic parseTrafficObservation ''plan'' True"

definition post_rail_infer ::
  "runtime \<Rightarrow> Ledger \<Rightarrow> (jsval \<Rightarrow> string + jsval) \<Rightarrow> real \<Rightarrow> jsval \<Rightarrow> Backend
     \<Rightarrow> InferReply reply \<times> Backend" where
  "post_rail_infer rt = infer_route rt rail parseRailObservation ''command'' False"

subsection \<open>\<^verbatim>\<open>POST /control/decisions/log\<close>\<close>

record StoredSummary =
  st_agent :: AgentKind
  st_location :: "string option"
  st_status :: string
  st_ts :: real

record LogReply =
  lr_stored :: StoredSummary
  lr_consensus :: "ConsensusLogResult option"
  lr_consensusPending :: bool
  lr_reasoning :: jsval

text \<open>\<^verbatim>\<open>'name' in payload\<close>.\<close>

fun has_field :: "jsval \<Rightarrow> string \<Rightarrow> bool" where
  "has_field (JObj kvs) name = (map_of kvs name \<noteq> None)"
| "has_field _ name = False"

text \<open>
  The wait budget, from the value of \<^verbatim>\<open>Number(process.env.CONSENSUS_LOG_WAIT_MS)\<close>.
\<close>

definition consensusWaitMs :: "jsnum \<Rightarrow> nat" where
  "consensusWaitMs raw = (case raw of Fin w \<Rightarrow> if w \<ge> 0 then nat \<lfloor>w\<rfloor> else 1500 | _ \<Rightarrow> 1500)"

text \<open>
  \<^verbatim>\<open>consensusWithUpdate\<close>: the callbacks chained on the submission's promise. When the
  promise settles they run on the entry at \<open>a\<close>: a result is written into the entry and
  passed on, a rejection is logged and becomes \<^verbatim>\<open>null\<close>.
\<close>

definition consensusWithUpdate ::
  "string + ConsensusLogResult option \<Rightarrow> addr \<Rightarrow> Backend \<Rightarrow> ConsensusLogResult option \<times> Backend" where
  "consensusWithUpdate settled a b =
     (case settled of
        Inr (Some result) \<Rightarrow>
          (Some result,
           (case objects b a of
              None \<Rightarrow> b
            | Some entry \<Rightarrow>
                b\<lparr>objects := (objects b)(a \<mapsto>
                     entry\<lparr>topicId := Some (c_topicId result),
                           sequenceNumber := c_sequenceNumber result,
                           consensusTimestamp := c_consensusTimestamp result\<rparr>)\<rparr>))
      | Inr None \<Rightarrow> (None, b)
      | Inl err \<Rightarrow> (None, b))"

text \<open>
  Which of the two promises of \<^verbatim>\<open>Promise.race\<close> settles first. The race is run only when
  the wait budget is not 0.
\<close>

datatype race = ConsensusFirst | TimeoutFirst

definition agentError :: string where
  "agentError = ''agent must be '' @ [CHR 0x27] @ ''traffic'' @ [CHR 0x27] @ '' or ''
                  @ [CHR 0x27] @ ''rail'' @ [CHR 0x27]"

text \<open>\<^verbatim>\<open>agentRaw\<close>, and the entry the handler builds from an accepted payload.\<close>

definition agentRawOf :: "runtime \<Rightarrow> jsval \<Rightarrow> string" where
  "agentRawOf rt payload =
     (case field payload ''agent'' of JStr s \<Rightarrow> toLowerCase rt s | _ \<Rightarrow> [])"

definition logEntryOf :: "runtime \<Rightarrow> real \<Rightarrow> jsval \<Rightarrow> DecisionLog" where
  "logEntryOf rt now payload =
     \<lparr>agent = (if agentRawOf rt payload = ''traffic'' then traffic else rail),
      location = coerceLocation rt (field payload ''location''),
      source = coerceString rt (field payload ''source''),
      observation = (if has_field payload ''observation''
                     then field payload ''observation'' else JNull),
      decision = field payload ''decision'',
      status = (case field payload ''status'' of JStr s \<Rightarrow> s | _ \<Rightarrow> ''APPLIED''),
      ts = (case Number rt (field payload ''ts'') of Fin t \<Rightarrow> t | _ \<Rightarrow> now),
      confidence = (case field payload ''confidence'' of JNum n \<Rightarrow> JNum n | _ \<Rightarrow> JUndefined),
      actionIndex = (case field payload ''actionIndex'' of JNum n \<Rightarrow> JNum n | _ \<Rightarrow> JUndefined),
      policyMetadata = (if is_object (field payload ''policyMetadata'')
                        then field payload ''policyMetadata'' else JUndefined),
      reasoning = normalizeReasoning rt (field payload ''reasoning''),
      consensusTimestamp = None, topicId = None, sequenceNumber = None\<rparr>"

text \<open>The \<^verbatim>\<open>stored\<close> and \<^verbatim>\<open>reasoning\<close> properties of the reply.\<close>

definition logReply :: "DecisionLog \<Rightarrow> ConsensusLogResult option \<Rightarrow> bool \<Rightarrow> LogReply" where
  "logReply entry consensus consensusPending =
     \<lparr>lr_stored = \<lparr>st_agent = agent entry, st_location = location entry,
                   st_status = status entry, st_ts = ts entry\<rparr>,
      lr_consensus = consensus,
      lr_consensusPending = consensusPending,
      lr_reasoning = coalesce (reasoning entry) JNull\<rparr>"

text \<open>
  The handler. Its result is the reply, the backend when the reply is sent, and the
  address of the entry whose submission is still in flight then (the callbacks of
  \<^verbatim>\<open>consensusWithUpdate\<close> run on it later), if there is one. \<open>waitRaw\<close> is the value of
  \<^verbatim>\<open>Number(process.env.CONSENSUS_LOG_WAIT_MS)\<close>. With a wait budget of 0 the handler does
  not await anything: it records the entry and replies before any callback can run.
\<close>

definition post_decisions_log ::
  "runtime \<Rightarrow> Ledger \<Rightarrow> jsnum \<Rightarrow> race \<Rightarrow> real \<Rightarrow> jsval \<Rightarrow> Backend
     \<Rightarrow> LogReply reply \<times> Backend \<times> addr option" where
  "post_decisions_log rt ledger waitRaw winner now body b =
     (let payload = coalesce body (JObj []);
          agentRaw = agentRawOf rt payload
      in if agentRaw \<noteq> ''traffic'' \<and> agentRaw \<noteq> ''rail''
         then (Failed 400 agentError, b, None)
         else
           (let entry = logEntryOf rt now payload;
                settled = submitDecisionToConsensus ledger (agent entry) entry;
                consensusWait = consensusWaitMs waitRaw
            in case alloc entry b of
                 (a, b1) \<Rightarrow>
                   if consensusWait = 0 \<or> winner = TimeoutFirst
                   then (Replied (logReply entry None True), record_entry a b1, Some a)
                   else
                     (case consensusWithUpdate settled a b1 of
                        (consensus, b2) \<Rightarrow>
                          (Replied (logReply entry consensus False), record_entry a b2, None))))"

subsection \<open>\<^verbatim>\<open>GET /control/decisions/latest\<close>\<close>

definition agentFilterOf :: "runtime \<Rightarrow> string option \<Rightarrow> AgentKind option" where
  "agentFilterOf rt q =
     (case q of
        None \<Rightarrow> None
      | Some s \<Rightarrow>
          if toLowerCase rt s = ''traffic'' then Some traffic
          else if toLowerCase rt s = ''rail'' then Some rail
          else None)"

text \<open>
  The limit, from the value of \<^verbatim>\<open>Number(req.query.limit)\<close>: \<open>None\<close> is \<^verbatim>\<open>undefined\<close>.
\<close>

definition limitOf :: "jsnum \<Rightarrow> nat option" where
  "limitOf limitRaw =
     (case limitRaw of
        Fin l \<Rightarrow> if l > 0 then Some (nat (min 100 \<lfloor>l\<rfloor>)) else None
      | _ \<Rightarrow> None)"

definition decisionKey :: "runtime \<Rightarrow> DecisionLog \<Rightarrow> string" where
  "decisionKey rt entry =
     toLowerCase rt (agentName (agent entry) @ ''::''
                  @ (case location entry of None \<Rightarrow> ''__unknown__'' | Some l \<Rightarrow> l))"

text \<open>One round of the loop over \<^verbatim>\<open>mem.decisions\<close>, on the map \<^verbatim>\<open>latestByKey\<close>.\<close>

definition latestStep ::
  "runtime \<Rightarrow> AgentKind option \<Rightarrow> (string \<times> DecisionLog) list \<Rightarrow> DecisionLog \<Rightarrow> (string \<times> DecisionLog) list" where
  "latestStep rt agentFilter latestByKey entry =
     (if (case agentFilter of None \<Rightarrow> False | Some a \<Rightarrow> agent entry \<noteq> a) then latestByKey
      else
        (case map_of latestByKey (decisionKey rt entry) of
           None \<Rightarrow> AList.update (decisionKey rt entry) entry latestByKey
         | Some current \<Rightarrow>
             if ts entry > ts current
             then AList.update (decisionKey rt entry) entry latestByKey
             else latestByKey))"

definition latestByKey ::
  "runtime \<Rightarrow> AgentKind option \<Rightarrow> DecisionLog list \<Rightarrow> (string \<times> DecisionLog) list" where
  "latestByKey rt agentFilter ds = foldl (latestStep rt agentFilter) [] ds"

text \<open>
  The values of the map, sorted by \<^verbatim>\<open>(a, b) => b.ts - a.ts\<close> (a stable sort, newest
  first), and cut to the limit when the limit is truthy.
\<close>

definition latestItems ::
  "runtime \<Rightarrow> AgentKind option \<Rightarrow> nat option \<Rightarrow> DecisionLog list \<Rightarrow> DecisionLog list" where
  "latestItems rt agentFilter limit ds =
     (let items = sort_key (\<lambda>e. - ts e) (map snd (latestByKey rt agentFilter ds))
      in case limit of
           None \<Rightarrow> items
         | Some n \<Rightarrow> if n \<noteq> 0 then take n items else items)"

record LatestItem =
  li_agent :: AgentKind
  li_location :: "string option"
  li_source :: "string option"
  li_status :: string
  li_ts :: real
  li_confidence :: jsval
  li_actionIndex :: jsval
  li_decision :: jsval
  li_observation :: jsval
  li_policyMetadata :: jsval
  li_reasoning :: jsval
  li_consensus :: "ConsensusLogResult option"

definition toLatestItem :: "DecisionLog \<Rightarrow> LatestItem" where
  "toLatestItem entry =
     \<lparr>li_agent = agent entry, li_location = location entry, li_source = source entry,
      li_status = status entry, li_ts = ts entry,
      li_confidence = (case confidence entry of JNum n \<Rightarrow> JNum n | _ \<Rightarrow> JNull),
      li_actionIndex = (case actionIndex entry of JNum n \<Rightarrow> JNum n | _ \<Rightarrow> JNull),
      li_decision = decision entry, li_observation = observation entry,
      li_policyMetadata = coalesce (policyMetadata entry) JNull,
      li_reasoning = coalesce (reasoning entry) JNull,
      li_consensus = (case topicId entry of
                        None \<Rightarrow> None
                      | Some t \<Rightarrow>
                          if t = [] then None
                          else Some \<lparr>c_topicId = t,
                                     c_consensusTimestamp = consensusTimestamp entry,
                                     c_sequenceNumber = sequenceNumber entry\<rparr>)\<rparr>"

record LatestReply =
  lt_updated :: real
  lt_items :: "LatestItem list"

text \<open>
  The handler: \<open>agent_q\<close> is \<^verbatim>\<open>req.query.agent\<close> when it is a string, \<open>limitRaw\<close> the value of
  \<^verbatim>\<open>Number(req.query.limit)\<close>.
\<close>

definition get_decisions_latest ::
  "runtime \<Rightarrow> string option \<Rightarrow> jsnum \<Rightarrow> real \<Rightarrow> Backend \<Rightarrow> LatestReply" where
  "get_decisions_latest rt agent_q limitRaw now b =
     \<lparr>lt_updated = now,
      lt_items = map toLatestItem
                   (latestItems rt (agentFilterOf rt agent_q) (limitOf limitRaw) (logEntries b))\<rparr>"

section \<open>Agents: the supervisor (supervisorGraph.ts)\<close>

datatype decision_source = policy | fallback

record TrafficStatus =
  ts_applied :: "bool option"
  ts_plan :: "TrafficPlan option"
  ts_source :: "decision_source option"
  ts_location :: "string option"
  ts_queueNS :: "jsnum option"
  ts_queueEW :: "jsnum option"
  ts_progress :: "jsnum option"
  ts_congestion :: "jsnum option"

record RailStatus =
  rs_applied :: "bool option"
  rs_command :: "RailCommand option"
  rs_source :: "decision_source option"
  rs_location :: "string option"
  rs_etaMs :: "jsnum option"

record SupervisorContext =
  ctx_traffic :: "TrafficStatus option"
  ctx_rail :: "RailStatus option"

record SupervisorConfig =
  hcsTopicId :: string

record SupervisorReport =
  ok :: bool
  anomalies :: "string list"

text \<open>The anomalies that \<^verbatim>\<open>tickSupervisor\<close> collects, in the order it pushes them.\<close>

definition supervisorAnomalies :: "SupervisorContext \<Rightarrow> string list" where
  "supervisorAnomalies ctx =
     (case (Option.bind (ctx_traffic ctx) ts_plan, Option.bind (ctx_rail ctx) rs_command) of
        (Some p, Some c) \<Rightarrow>
          (if state c = CLOSED \<and> ns p = green
           then [''Barrier closed while north-south lights are green.''] else [])
          @ (if state c = OPEN \<and> eo p = green \<and> ns p = red
             then [''Barrier open while east-west traffic flows; verify interlocks.''] else [])
      | _ \<Rightarrow> [])
     @ (if Option.bind (ctx_traffic ctx) ts_source = Some fallback
        then [''Traffic controller in fallback mode.''] else [])
     @ (if Option.bind (ctx_rail ctx) rs_source = Some fallback
        then [''Rail controller in fallback mode.''] else [])"

text \<open>
  \<^verbatim>\<open>hedera_log_decision\<close> of tools/hederaLog.ts. The topic must match
  \<^verbatim>\<open>^\d+\.\d+\.\d+$\<close>. The ledger is the environment: whether credentials are set, and what
  building the client and submitting return (the receipt's status) or throw.
\<close>

definition is_digit :: "char \<Rightarrow> bool" where
  "is_digit c = (48 \<le> (of_char c :: nat) \<and> (of_char c :: nat) \<le> 57)"

fun split_dots :: "string \<Rightarrow> string list" where
  "split_dots [] = [[]]"
| "split_dots (c # cs) =
     (if c = CHR ''.'' then [] # split_dots cs
      else (case split_dots cs of [] \<Rightarrow> [[c]] | w # ws \<Rightarrow> (c # w) # ws))"

definition is_topic_id :: "string \<Rightarrow> bool" where
  "is_topic_id s =
     (case split_dots s of
        [a, b, c] \<Rightarrow> a \<noteq> [] \<and> b \<noteq> [] \<and> c \<noteq> [] \<and> list_all is_digit (a @ b @ c)
      | _ \<Rightarrow> False)"

datatype log_result = LogSkipped | LogMock | LogSubmitted string

record LogLedger =
  log_credentials :: bool
  log_submit :: "string + string"

definition hedera_log_decision ::
  "runtime \<Rightarrow> LogLedger \<Rightarrow> string \<Rightarrow> 'p \<Rightarrow> string + log_result" where
  "hedera_log_decision rt ledger topic_id payload =
     (let topic = trim rt topic_id
      in if topic = [] \<or> \<not> is_topic_id topic then Inr LogSkipped
         else if \<not> log_credentials ledger then Inr LogMock
         else (case log_submit ledger of
                 Inl err \<Rightarrow> Inl err
               | Inr st \<Rightarrow> Inr (LogSubmitted st)))"

record SupervisorPayload =
  sp_type :: string
  sp_traffic :: "TrafficStatus option"
  sp_rail :: "RailStatus option"
  sp_anomalies :: "string list"
  sp_ok :: bool

text \<open>\<^verbatim>\<open>tickSupervisor\<close>: \<open>Inl\<close> when publishing throws, else the report.\<close>

definition tickSupervisor ::
  "runtime \<Rightarrow> LogLedger \<Rightarrow> SupervisorConfig \<Rightarrow> SupervisorContext \<Rightarrow> string + SupervisorReport" where
  "tickSupervisor rt ledger cfg ctx =
     (let found = supervisorAnomalies ctx;
          report = \<lparr>ok = (length found = 0), anomalies = found\<rparr>;
          topic = trim rt (hcsTopicId cfg)
      in if topic \<noteq> []
         then (case hedera_log_decision rt ledger topic
                      \<lparr>sp_type = ''SUPERVISOR_STATUS'', sp_traffic = ctx_traffic ctx,
                       sp_rail = ctx_rail ctx, sp_anomalies = found,
                       sp_ok = (length found = 0)\<rparr> of
                 Inl err \<Rightarrow> Inl err
               | Inr _ \<Rightarrow> Inr report)
         else Inr report)"

section \<open>Agents: the rail pipeline (railGraph.ts)\<close>

record RailObservation =
  eta_ms :: jsnum
  barrier_closed :: jsnum















section \<open>Predicates and sample inputs of the statements\<close>

text \<open>
  A runtime for the examples. It does what the language does on the inputs the examples
  give it: they hold no string, array or object to convert to a number, their one product
  (a half times 100) is exact, and the strings they lower-case or trim are ASCII.
\<close>

definition is_space :: "char \<Rightarrow> bool" where
  "is_space c = (c \<in> set [CHR '' '', CHR 0x09, CHR 0x0A, CHR 0x0B, CHR 0x0C, CHR 0x0D])"

definition ascii_trim :: "string \<Rightarrow> string" where
  "ascii_trim s = rev (dropWhile is_space (rev (dropWhile is_space s)))"

definition lower_char :: "char \<Rightarrow> char" where
  "lower_char c =
     (case map_of (zip ''ABCDEFGHIJKLMNOPQRSTUVWXYZ'' ''abcdefghijklmnopqrstuvwxyz'') c of
        None \<Rightarrow> c
      | Some l \<Rightarrow> l)"

definition sample_runtime :: runtime where
  "sample_runtime =
     \<lparr>rt_number = (\<lambda>v. NaN), rt_times = (\<lambda>a b. Fin (a * b)),
      rt_toLowerCase = map lower_char, rt_trim = ascii_trim\<rparr>"

text \<open>
  A runtime at an input where the product overflows: the double product of \<open>- 2 ^ 1023\<close> and
  100 is \<^verbatim>\<open>-Infinity\<close>.
\<close>

definition overflow_runtime :: runtime where
  "overflow_runtime = sample_runtime\<lparr>rt_times := (\<lambda>a b. NegInf)\<rparr>"

text \<open>The two cross-checks of the supervisor, as conditions on its context.\<close>

definition closedWhileGreen :: "SupervisorContext \<Rightarrow> bool" where
  "closedWhileGreen ctx =
     (case (Option.bind (ctx_traffic ctx) ts_plan, Option.bind (ctx_rail ctx) rs_command) of
        (Some p, Some c) \<Rightarrow> state c = CLOSED \<and> ns p = green
      | _ \<Rightarrow> False)"

definition openWhileEastWest :: "SupervisorContext \<Rightarrow> bool" where
  "openWhileEastWest ctx =
     (case (Option.bind (ctx_traffic ctx) ts_plan, Option.bind (ctx_rail ctx) rs_command) of
        (Some p, Some c) \<Rightarrow> state c = OPEN \<and> eo p = green \<and> ns p = red
      | _ \<Rightarrow> False)"

text \<open>Tick summaries as the agents' loop hands them to the supervisor.\<close>

definition status_of_traffic :: "TrafficPlan \<Rightarrow> decision_source \<Rightarrow> TrafficStatus" where
  "status_of_traffic p src =
     \<lparr>ts_applied = Some True, ts_plan = Some p, ts_source = Some src, ts_location = Some ''A'',
      ts_queueNS = Some (Fin 3), ts_queueEW = Some (Fin 9), ts_progress = None,
      ts_congestion = Some (Fin 9)\<rparr>"

definition status_of_rail :: "barrier_state \<Rightarrow> decision_source \<Rightarrow> RailStatus" where
  "status_of_rail st src =
     \<lparr>rs_applied = Some True, rs_command = Some \<lparr>state = st\<rparr>, rs_source = Some src,
      rs_location = Some ''X1'', rs_etaMs = Some (Fin 25000)\<rparr>"




text \<open>Values of traffic and rail measurements.\<close>

definition queue_and_wait :: jsval where
  "queue_and_wait = JObj [(''queue_ns'', JNum (Fin 5)), (''wait_ns'', JNum (Fin 50))]"

definition progress_only :: jsval where
  "progress_only = JObj [(''progress'', JNum (Fin (1 / 2)))]"

definition progress_overflow :: jsval where
  "progress_overflow = JObj [(''progress'', JNum (Fin (- (2 ^ 1023))))]"

definition wait_only :: jsval where
  "wait_only = JObj [(''wait_ns'', JNum (Fin 12)), (''wait_ew'', JNum (Fin 7))]"

definition rail_eta :: jsval where
  "rail_eta = JObj [(''etaMs'', JNum (Fin 18000))]"


text \<open>A measurement of a given kind, location and time, and the body that stores it.\<close>

definition sample_measurement :: "string \<Rightarrow> string \<Rightarrow> real \<Rightarrow> Measurement" where
  "sample_measurement k l t =
     \<lparr>m_kind = k, m_location = l, m_value = JNum (Fin 7), m_metric = Some (Fin 7), m_ts = Fin t\<rparr>"

definition sample_body :: "string \<Rightarrow> string \<Rightarrow> real \<Rightarrow> IngestBody" where
  "sample_body k l t =
     \<lparr>b_kind = Some k, b_location = Some l, b_value = JNum (Fin 7), b_ts = JNum (Fin t)\<rparr>"

text \<open>A run: three measurements ingested, then three requests for the next one.\<close>

definition sample_requests :: "ingest_request list" where
  "sample_requests =
     [PostIngest 1 (sample_body ''rail'' ''X1'' 10), PostIngest 2 (sample_body ''traffic'' ''A'' 20),
      PostIngest 3 (sample_body ''traffic'' ''B'' 30), GetNext (Some ''traffic''),
      GetNext None, GetNext (Some ''traffic'')]"

definition sample_replies :: "ingest_reply list" where
  "sample_replies =
     [IngestReply (IngestStored (sample_measurement ''rail'' ''X1'' 10)),
      IngestReply (IngestStored (sample_measurement ''traffic'' ''A'' 20)),
      IngestReply (IngestStored (sample_measurement ''traffic'' ''B'' 30)),
      NextReply (Some (sample_measurement ''traffic'' ''A'' 20)),
      NextReply (Some (sample_measurement ''traffic'' ''B'' 30)),
      NextReply None]"

definition sample_store :: MemoryStore where
  "sample_store =
     \<lparr>measurements = [sample_measurement ''rail'' ''X1'' 10], decisions = [],
      recent = [''rail'' \<mapsto> [sample_measurement ''rail'' ''X1'' 10],
                ''traffic'' \<mapsto> [sample_measurement ''traffic'' ''A'' 20,
                                  sample_measurement ''traffic'' ''B'' 30]],
      latestByLocation =
        [''rail'' \<mapsto> [(''X1'', sample_measurement ''rail'' ''X1'' 10)],
         ''traffic'' \<mapsto> [(''A'', sample_measurement ''traffic'' ''A'' 20),
                           (''B'', sample_measurement ''traffic'' ''B'' 30)]]\<rparr>"

text \<open>The most recently stored measurement of a location, among those stored in order.\<close>

definition latestFor :: "string \<Rightarrow> Measurement list \<Rightarrow> Measurement option" where
  "latestFor l ms =
     (let there = filter (\<lambda>m. m_location m = l) ms
      in if there = [] then None else Some (last there))"

text \<open>The per-location map of a kind, as \<^verbatim>\<open>GET /ingest/snapshot\<close> reads it.\<close>

definition latestMap :: "string \<Rightarrow> MemoryStore \<Rightarrow> (string \<times> Measurement) list" where
  "latestMap k s = (case latestByLocation s k of None \<Rightarrow> [] | Some m \<Rightarrow> m)"

text \<open>
  What the run of the measurement routes keeps true of that map: one entry per location,
  the most recently stored measurement of the kind there.
\<close>

definition latest_inv :: "string \<Rightarrow> MemoryStore \<Rightarrow> Measurement list \<Rightarrow> bool" where
  "latest_inv k s ms =
     (distinct (map fst (latestMap k s)) \<and> (\<forall>l. map_of (latestMap k s) l = latestFor l ms))"

text \<open>A run that stores two measurements for one location and one for another.\<close>

definition repeat_requests :: "ingest_request list" where
  "repeat_requests =
     [PostIngest 1 (sample_body ''traffic'' ''A'' 20), PostIngest 2 (sample_body ''traffic'' ''B'' 30),
      PostIngest 3 (sample_body ''traffic'' ''A'' 40)]"

definition repeat_replies :: "ingest_reply list" where
  "repeat_replies =
     [IngestReply (IngestStored (sample_measurement ''traffic'' ''A'' 20)),
      IngestReply (IngestStored (sample_measurement ''traffic'' ''B'' 30)),
      IngestReply (IngestStored (sample_measurement ''traffic'' ''A'' 40))]"

definition repeat_store :: MemoryStore where
  "repeat_store =
     \<lparr>measurements = [sample_measurement ''traffic'' ''A'' 20, sample_measurement ''traffic'' ''B'' 30,
                      sample_measurement ''traffic'' ''A'' 40],
      decisions = [],
      recent = [''traffic'' \<mapsto> [sample_measurement ''traffic'' ''A'' 20,
                                  sample_measurement ''traffic'' ''B'' 30,
                                  sample_measurement ''traffic'' ''A'' 40]],
      latestByLocation =
        [''traffic'' \<mapsto> [(''A'', sample_measurement ''traffic'' ''A'' 40),
                           (''B'', sample_measurement ''traffic'' ''B'' 30)]]\<rparr>"

text \<open>
  A ledger with credentials that rejects the submission, an inference service that
  answers with a plan, and request bodies for the inference and the log routes.
\<close>

definition rejecting_ledger :: Ledger where
  "rejecting_ledger =
     \<lparr>operator = True, ensureTopic = (\<lambda>a. Inr ''0.0.4711''),
      submitMessage = Inl ''INVALID_SIGNATURE''\<rparr>"

definition confirming_ledger :: Ledger where
  "confirming_ledger =
     \<lparr>operator = True, ensureTopic = (\<lambda>a. Inr ''0.0.4711''),
      submitMessage = Inr (Some ''2025-01-01T00:00:00.000Z'', Some ''42'')\<rparr>"

definition plan_oracle :: "jsval \<Rightarrow> string + jsval" where
  "plan_oracle obs =
     Inr (JObj [(''plan'', JObj [(''ns'', JStr ''green''), (''eo'', JStr ''red''),
                               (''durationSec'', JNum (Fin 30))]),
                (''action_index'', JNum (Fin 0)), (''confidence'', JNum (Fin (9 / 10)))])"

definition infer_body :: jsval where
  "infer_body = JObj [(''observation'', JObj [(''queue_ns'', JNum (Fin 12)),
                                              (''queue_ew'', JNum (Fin 3))]),
                      (''location'', JStr ''A''), (''source'', JStr ''agent'')]"

definition log_body :: jsval where
  "log_body = JObj [(''agent'', JStr ''rail''), (''location'', JStr ''X1''),
                    (''decision'', JObj [(''state'', JStr ''CLOSED'')]),
                    (''status'', JStr ''APPLIED''), (''ts'', JNum (Fin 1700000000000)),
                    (''source'', JStr ''fallback'')]"

definition log_entry :: DecisionLog where
  "log_entry =
     \<lparr>agent = rail, location = Some ''X1'', source = Some ''fallback'', observation = JNull,
      decision = JObj [(''state'', JStr ''CLOSED'')], status = ''APPLIED'',
      ts = 1700000000000, confidence = JUndefined, actionIndex = JUndefined,
      policyMetadata = JUndefined, reasoning = JUndefined, consensusTimestamp = None,
      topicId = None, sequenceNumber = None\<rparr>"

text \<open>Whether the loop of \<^verbatim>\<open>GET /control/decisions/latest\<close> looks at an entry, and the location
  part of its key.\<close>

definition passesFilter :: "AgentKind option \<Rightarrow> DecisionLog \<Rightarrow> bool" where
  "passesFilter agentFilter entry = (case agentFilter of None \<Rightarrow> True | Some a \<Rightarrow> agent entry = a)"

definition locationKey :: "DecisionLog \<Rightarrow> string" where
  "locationKey entry = (case location entry of None \<Rightarrow> ''__unknown__'' | Some l \<Rightarrow> l)"

text \<open>
  An entry is the first recorded one of greatest timestamp in its group, among the entries
  that pass the filter: those of its group recorded before it are strictly older, those
  recorded after it are not newer.
\<close>

fun firstGreatest ::
  "runtime \<Rightarrow> AgentKind option \<Rightarrow> DecisionLog \<Rightarrow> DecisionLog list \<Rightarrow> bool" where
  "firstGreatest rt af e [] = False"
| "firstGreatest rt af e (x # after) =
     ((x = e
        \<and> list_all (\<lambda>y. passesFilter af y \<and> decisionKey rt y = decisionKey rt e \<longrightarrow> ts y \<le> ts e)
             after)
      \<or> ((passesFilter af x \<and> decisionKey rt x = decisionKey rt e \<longrightarrow> ts x < ts e)
          \<and> firstGreatest rt af e after))"

text \<open>What the loop keeps true of \<^verbatim>\<open>latestByKey\<close> after the entries \<open>seen\<close>.\<close>

definition latest_map_inv ::
  "runtime \<Rightarrow> AgentKind option \<Rightarrow> DecisionLog list \<Rightarrow> (string \<times> DecisionLog) list \<Rightarrow> bool" where
  "latest_map_inv rt af seen m =
     (distinct (map fst m)
      \<and> (\<forall>k e. map_of m k = Some e \<longrightarrow>
             k = decisionKey rt e \<and> passesFilter af e \<and> firstGreatest rt af e seen)
      \<and> (\<forall>d \<in> set seen. passesFilter af d \<longrightarrow> map_of m (decisionKey rt d) \<noteq> None))"

text \<open>Decisions for the examples, and a backend whose log holds two of them.\<close>

definition sample_decision :: "AgentKind \<Rightarrow> string option \<Rightarrow> real \<Rightarrow> DecisionLog" where
  "sample_decision a l t =
     \<lparr>agent = a, location = l, source = Some ''policy'', observation = JNull,
      decision = JNull, status = ''APPLIED'', ts = t, confidence = JUndefined,
      actionIndex = JUndefined, policyMetadata = JUndefined, reasoning = JUndefined,
      consensusTimestamp = None, topicId = None, sequenceNumber = None\<rparr>"

definition sample_log :: "DecisionLog list" where
  "sample_log =
     [sample_decision traffic (Some ''A'') 10, sample_decision traffic (Some ''a'') 30,
      sample_decision rail None 20, sample_decision traffic (Some ''A'') 30]"

definition backend_two :: Backend where
  "backend_two =
     \<lparr>mem = mem_init\<lparr>decisions := [0, 1]\<rparr>,
      objects = [0 \<mapsto> sample_decision traffic (Some ''A'') 10,
                 1 \<mapsto> sample_decision rail (Some ''X1'') 20],
      next_addr = 2\<rparr>"

section \<open>The sample runtime\<close>

lemma sample_number: "rt_number sample_runtime v = NaN"
  by (simp add: sample_runtime_def)

lemma sample_times: "rt_times sample_runtime a b = Fin (a * b)"
  by (simp add: sample_runtime_def)

lemma sample_lower: "toLowerCase sample_runtime s = map lower_char s"
  by (simp add: toLowerCase_def sample_runtime_def)

lemma sample_trim: "trim sample_runtime s = ascii_trim s"
  by (simp add: trim_def sample_runtime_def)

section \<open>The decision log is bounded and keeps the newest entries\<close>

lemma recordDecision_drop:
  "recordDecision e ds = drop (length (ds @ [e]) - DECISION_HISTORY_LIMIT) (ds @ [e])"
  by (simp add: recordDecision_def Let_def)

lemma drop_suffix_append:
  "drop (length (drop (length xs - k) xs @ ys) - k) (drop (length xs - k) xs @ ys)
     = drop (length (xs @ ys) - k) (xs @ ys)"
proof (cases "length xs \<le> k")
  case True
  then show ?thesis by simp
next
  case False
  then have len: "length (drop (length xs - k) xs) = k" by simp
  have "drop (length (drop (length xs - k) xs @ ys) - k) (drop (length xs - k) xs @ ys)
          = drop (length ys) (drop (length xs - k) xs @ ys)"
    using len by simp
  also have "\<dots> = drop (length ys) (drop (length xs - k) (xs @ ys))"
    by simp
  also have "\<dots> = drop (length ys + (length xs - k)) (xs @ ys)"
    by (simp only: drop_drop)
  also have "length ys + (length xs - k) = length (xs @ ys) - k"
    using False by simp
  finally show ?thesis .
qed

lemma length_drop_last: "length (drop (length xs - k) xs) = min k (length xs)"
proof -
  have "length (drop (length xs - k) xs) = length xs - (length xs - k)" by simp
  also have "\<dots> = min k (length xs)" by arith
  finally show ?thesis .
qed

lemma recordAll_drop:
  "es \<noteq> [] \<or> length ds \<le> DECISION_HISTORY_LIMIT \<Longrightarrow>
   recordAll ds es = drop (length (ds @ es) - DECISION_HISTORY_LIMIT) (ds @ es)"
proof (induction es arbitrary: ds)
  case Nil
  then show ?case by simp
next
  case (Cons e es)
  have bounded: "length (recordDecision e ds) \<le> DECISION_HISTORY_LIMIT"
    by (simp add: recordDecision_def Let_def DECISION_HISTORY_LIMIT_def)
  have "recordAll ds (e # es) = recordAll (recordDecision e ds) es" by simp
  also have "\<dots> = drop (length (recordDecision e ds @ es) - DECISION_HISTORY_LIMIT)
                      (recordDecision e ds @ es)"
    using Cons.IH [of "recordDecision e ds"] bounded by blast
  also have "\<dots> = drop (length ((ds @ [e]) @ es) - DECISION_HISTORY_LIMIT) ((ds @ [e]) @ es)"
    unfolding recordDecision_drop by (rule drop_suffix_append)
  finally show ?case by simp
qed

text \<open>
  C5. After any sequence of \<^verbatim>\<open>recordDecision\<close> calls on a log within the bound (the empty
  log the backend starts with is one), the log holds at most 1000 entries, and they are
  exactly the last 1000 of everything recorded, in insertion order: what is dropped is
  dropped from the front.
\<close>

theorem decision_log_bounded:
  assumes "length ds \<le> DECISION_HISTORY_LIMIT"
  shows "length (recordAll ds es) \<le> 1000
         \<and> length (recordAll ds es) = min 1000 (length (ds @ es))
         \<and> recordAll ds es = drop (length (ds @ es) - 1000) (ds @ es)
         \<and> recordAll [] es = drop (length es - 1000) es"
proof -
  have a: "recordAll ds es = drop (length (ds @ es) - 1000) (ds @ es)"
    using recordAll_drop [of es ds] assms by (simp add: DECISION_HISTORY_LIMIT_def)
  have b: "recordAll [] es = drop (length es - 1000) es"
    using recordAll_drop [of es "[]"] by (simp add: DECISION_HISTORY_LIMIT_def)
  have c: "length (recordAll ds es) = min 1000 (length (ds @ es))"
    unfolding a by (rule length_drop_last)
  from a b c show ?thesis by simp
qed

theorem decision_log_bounded_witness:
  "length ([] :: nat list) \<le> DECISION_HISTORY_LIMIT
   \<and> recordAll ([] :: nat list) [0..<1003] = [3..<1003]
   \<and> length (recordAll ([] :: nat list) [0..<1003]) = 1000"
  using decision_log_bounded [of "[] :: nat list" "[0..<1003]"]
  by (simp add: DECISION_HISTORY_LIMIT_def)

section \<open>The fallback policies\<close>

lemma js_ge_Fin: "js_ge (Fin a) (Fin b) = (b \<le> a)"
  by (auto simp: js_ge_def js_le_def)

lemma Math_max_Fin: "Math_max (Fin a) (Fin b) = Fin (max a b)"
  by (simp add: Math_max_def max_def)

text \<open>
  C3. \<^verbatim>\<open>fallbackPlan\<close> and \<^verbatim>\<open>fallbackCommand\<close> are functions of their arguments. Traffic: the
  plan is decided by the comparisons \<^verbatim>\<open>queueNS >= queueEW\<close> and \<^verbatim>\<open>max > threshold\<close>; for
  finite queues this means that the approach with the larger queue is green and the other
  red, north-south on a tie, and that the duration is \<open>d1\<close> when the larger queue exceeds the
  threshold and \<open>d0\<close> otherwise. Queues
  25 and 10 with threshold 20, \<open>d0 = 15\<close>, \<open>d1 = 30\<close> give north-south green, east-west red,
  30 seconds. Rail: the command is CLOSED when the ETA is at most \<open>closeLeadMs\<close> and OPEN
  otherwise; with \<open>closeLeadMs = 20000\<close>, an ETA of 18000 closes and one of 25000 opens.
\<close>

theorem fallback_policy:
  "plan (fallbackPlan a b cfg) =
     \<lparr>ns = (if js_ge a b then green else red), eo = (if js_ge a b then red else green),
      durationSec = (if js_gt (Math_max a b) (threshold cfg) then d1 cfg else d0 cfg)\<rparr>
   \<and> fallbackPlan (Fin qns) (Fin qew) cfg =
     \<lparr>plan = \<lparr>ns = (if qew \<le> qns then green else red),
              eo = (if qew \<le> qns then red else green),
              durationSec = (if js_gt (Fin (max qns qew)) (threshold cfg) then d1 cfg else d0 cfg)\<rparr>,
      strategy = (if qew \<le> qns then fallback_ns else fallback_ew)\<rparr>
   \<and> (js_gt (Fin (max qns qew)) (Fin t) = (t < max qns qew))
   \<and> plan (fallbackPlan (Fin 25) (Fin 10) (cfg\<lparr>threshold := Fin 20, d0 := Fin 15, d1 := Fin 30\<rparr>))
       = \<lparr>ns = green, eo = red, durationSec = Fin 30\<rparr>
   \<and> command (fallbackCommand eta rcfg)
       = \<lparr>state = (if js_le eta (closeLeadMs rcfg) then CLOSED else OPEN)\<rparr>
   \<and> (js_le (Fin e) (Fin lead) = (e \<le> lead))
   \<and> command (fallbackCommand (Fin 18000) (rcfg\<lparr>closeLeadMs := Fin 20000\<rparr>)) = \<lparr>state = CLOSED\<rparr>
   \<and> command (fallbackCommand (Fin 25000) (rcfg\<lparr>closeLeadMs := Fin 20000\<rparr>)) = \<lparr>state = OPEN\<rparr>"
  by (auto simp: fallbackPlan_def fallbackCommand_def Let_def js_ge_Fin Math_max_Fin js_gt_def
        js_le_def)

section \<open>The supervisor's report\<close>

lemma anomalies_closed:
  "(''Barrier closed while north-south lights are green.'' \<in> set (supervisorAnomalies ctx))
     = closedWhileGreen ctx"
  by (auto simp: supervisorAnomalies_def closedWhileGreen_def split: option.splits)

lemma anomalies_empty:
  "(supervisorAnomalies ctx = []) =
     (\<not> closedWhileGreen ctx \<and> \<not> openWhileEastWest ctx
      \<and> Option.bind (ctx_traffic ctx) ts_source \<noteq> Some fallback
      \<and> Option.bind (ctx_rail ctx) rs_source \<noteq> Some fallback)"
  by (auto simp: supervisorAnomalies_def closedWhileGreen_def openWhileEastWest_def
        split: option.splits)

lemma tickSupervisor_report:
  "tickSupervisor rt ledger cfg ctx = Inr rep \<Longrightarrow>
     rep = \<lparr>ok = (supervisorAnomalies ctx = []), anomalies = supervisorAnomalies ctx\<rparr>"
  by (auto simp: tickSupervisor_def Let_def split: if_splits sum.splits)

text \<open>
  C6 (as the code has it). When \<^verbatim>\<open>tickSupervisor\<close> returns, its report lists the anomaly
  "Barrier closed while north-south lights are green." exactly when both summaries are
  present, the barrier state is CLOSED and the north-south phase is green. \<^verbatim>\<open>ok\<close> holds
  exactly when the report lists no anomaly, which is when neither that condition holds,
  nor the barrier is OPEN while east-west is green and north-south red, nor either
  decision source is \<^verbatim>\<open>fallback\<close>.
\<close>

theorem supervisor_report:
  assumes "tickSupervisor rt ledger cfg ctx = Inr rep"
  shows "((''Barrier closed while north-south lights are green.'' \<in> set (anomalies rep))
            = closedWhileGreen ctx)
         \<and> (ok rep = (anomalies rep = []))
         \<and> (ok rep = (\<not> closedWhileGreen ctx \<and> \<not> openWhileEastWest ctx
                        \<and> Option.bind (ctx_traffic ctx) ts_source \<noteq> Some fallback
                        \<and> Option.bind (ctx_rail ctx) rs_source \<noteq> Some fallback))"
  using tickSupervisor_report [OF assms] anomalies_closed [of ctx] anomalies_empty [of ctx]
  by simp

theorem supervisor_report_witness:
  "tickSupervisor sample_runtime \<lparr>log_credentials = False, log_submit = Inr ''SUCCESS''\<rparr> \<lparr>hcsTopicId = ''''\<rparr>
      \<lparr>ctx_traffic = Some (status_of_traffic \<lparr>ns = green, eo = red, durationSec = Fin 15\<rparr> policy),
       ctx_rail = Some (status_of_rail CLOSED policy)\<rparr>
     = Inr \<lparr>ok = False, anomalies = [''Barrier closed while north-south lights are green.'']\<rparr>
   \<and> closedWhileGreen
      \<lparr>ctx_traffic = Some (status_of_traffic \<lparr>ns = green, eo = red, durationSec = Fin 15\<rparr> policy),
       ctx_rail = Some (status_of_rail CLOSED policy)\<rparr>"
  using supervisor_report [of sample_runtime
      "\<lparr>log_credentials = False, log_submit = Inr ''SUCCESS''\<rparr>"
      "\<lparr>hcsTopicId = ''''\<rparr>"
      "\<lparr>ctx_traffic = Some (status_of_traffic \<lparr>ns = green, eo = red, durationSec = Fin 15\<rparr> policy),
       ctx_rail = Some (status_of_rail CLOSED policy)\<rparr>"
      "\<lparr>ok = False, anomalies = [''Barrier closed while north-south lights are green.'']\<rparr>"]
  by (simp add: tickSupervisor_def supervisorAnomalies_def status_of_traffic_def
        status_of_rail_def sample_trim ascii_trim_def is_space_def closedWhileGreen_def)

text \<open>
  C6 as stated fails: with the barrier OPEN, east-west green and north-south red
  (both decisions from the policy), the report carries an anomaly and \<^verbatim>\<open>ok\<close> is false.
\<close>

theorem supervisor_open_east_west_counterexample:
  "tickSupervisor sample_runtime \<lparr>log_credentials = False, log_submit = Inr ''SUCCESS''\<rparr> \<lparr>hcsTopicId = ''''\<rparr>
      \<lparr>ctx_traffic = Some (status_of_traffic \<lparr>ns = red, eo = green, durationSec = Fin 15\<rparr> policy),
       ctx_rail = Some (status_of_rail OPEN policy)\<rparr>
     = Inr \<lparr>ok = False,
            anomalies = [''Barrier open while east-west traffic flows; verify interlocks.'']\<rparr>
   \<and> \<not> closedWhileGreen
      \<lparr>ctx_traffic = Some (status_of_traffic \<lparr>ns = red, eo = green, durationSec = Fin 15\<rparr> policy),
       ctx_rail = Some (status_of_rail OPEN policy)\<rparr>"
  by (simp add: tickSupervisor_def supervisorAnomalies_def status_of_traffic_def
        status_of_rail_def sample_trim ascii_trim_def is_space_def closedWhileGreen_def)

section \<open>The rail pipeline's remembered barrier state\<close>








section \<open>The metric of a measurement\<close>

lemma Math_max_finite:
  "isFinite a \<Longrightarrow> isFinite b \<Longrightarrow>
     isFinite (Math_max a b) \<and> js_le a (Math_max a b) \<and> js_le b (Math_max a b)
     \<and> (Math_max a b = a \<or> Math_max a b = b)"
  by (cases a; cases b) (auto simp: Math_max_def js_le_def)

lemma js_le_trans_finite:
  "js_le a b \<Longrightarrow> js_le b c \<Longrightarrow> js_le a c"
  by (cases a; cases b; cases c) (auto simp: js_le_def)

lemma foldl_Math_max_finite:
  "isFinite acc \<Longrightarrow> list_all isFinite xs \<Longrightarrow>
     isFinite (foldl Math_max acc xs)
     \<and> js_le acc (foldl Math_max acc xs)
     \<and> list_all (\<lambda>x. js_le x (foldl Math_max acc xs)) xs
     \<and> (foldl Math_max acc xs = acc \<or> foldl Math_max acc xs \<in> set xs)"
proof (induction xs arbitrary: acc)
  case Nil
  then show ?case by (cases acc) (auto simp: js_le_def)
next
  case (Cons x xs)
  then have fx: "isFinite x" and fxs: "list_all isFinite xs" by simp_all
  note m = Math_max_finite [OF Cons.prems(1) fx]
  note ih = Cons.IH [of "Math_max acc x", OF conjunct1 [OF m] fxs]
  have "js_le acc (foldl Math_max (Math_max acc x) xs)"
    using m ih js_le_trans_finite by blast
  moreover have "js_le x (foldl Math_max (Math_max acc x) xs)"
    using m ih js_le_trans_finite by blast
  ultimately show ?case using ih m by auto
qed

lemma Math_max_list_finite:
  assumes "xs \<noteq> []" and "list_all isFinite xs"
  shows "isFinite (Math_max_list xs) \<and> Math_max_list xs \<in> set xs
         \<and> list_all (\<lambda>x. js_le x (Math_max_list xs)) xs"
proof -
  obtain x rest where xs: "xs = x # rest" using assms(1) by (cases xs) auto
  then have fx: "isFinite x" and fr: "list_all isFinite rest" using assms(2) by simp_all
  have start: "Math_max NegInf x = x" using fx by (cases x) (auto simp: Math_max_def)
  have le: "js_le x x" using fx by (cases x) (auto simp: js_le_def)
  from foldl_Math_max_finite [OF fx fr] show ?thesis
    unfolding Math_max_list_def xs by (auto simp: start)
qed

lemma finiteFields_finite: "list_all isFinite (finiteFields rt raw names)"
  by (simp add: finiteFields_def list_all_iff)

lemma deriveMetric_object:
  "is_object raw \<Longrightarrow>
     deriveMetric rt kind raw =
       (if kind = ''traffic'' then
          (if finiteFields rt raw congestionNames \<noteq> []
           then Some (Math_max_list (finiteFields rt raw congestionNames))
           else
             (case Number rt (progressField raw) of
                Fin progress \<Rightarrow>
                  Some (if progress \<le> 1 then rt_times rt progress 100 else Fin progress)
              | _ \<Rightarrow>
                (if finiteFields rt raw waitNames \<noteq> []
                 then Some (Math_max_list (finiteFields rt raw waitNames)) else None)))
        else if kind = ''rail'' then
          (if isFinite (Number rt (etaField raw)) then Some (Number rt (etaField raw)) else None)
        else None)"
  by (cases raw) (simp_all add: deriveMetric_def Let_def split: jsnum.splits)

lemma deriveMetric_not_object:
  "\<not> is_object raw \<Longrightarrow>
     deriveMetric rt kind raw = (case raw of JNum n \<Rightarrow> if isFinite n then Some n else None | _ \<Rightarrow> None)"
  by (cases raw) (simp_all add: deriveMetric_def)

lemma post_ingest_metric:
  "post_ingest rt now body s = (IngestStored item, s') \<Longrightarrow>
     m_metric item = (case deriveMetric rt (m_kind item) (m_value item) of
                        None \<Rightarrow> None
                      | Some n \<Rightarrow> if isFinite n then Some n else None)"
  by (auto simp: post_ingest_def Let_def split: option.splits if_splits)

text \<open>
  C7 (as the code has it). The metric that ingest stores is what \<^verbatim>\<open>deriveMetric\<close> returns when
  that is a finite number, and is absent otherwise. A value that is a finite number is its
  own metric; any other value that is not an object has none. For a traffic object the
  sources are tried in order: when some congestion or queue property reads as a finite
  number, the metric is the largest of these (wait and progress properties are not looked
  at); else, when the first present one of progress, flow, utilisation, utilization reads
  as a finite \<open>p\<close>, it is the double product \<open>p * 100\<close> for \<open>p \<le> 1\<close> (absent when that product is
  not finite) and \<open>p\<close> above; else it is the largest finite wait property, and absent when
  there is none. For a rail object it is the first present one of etaMs, eta_ms, eta when
  that reads as a finite number, and absent otherwise. An object of any other kind has
  no metric.
\<close>

theorem ingest_metric:
  "(post_ingest rt now body s = (IngestStored item, s') \<longrightarrow>
      m_metric item = (case deriveMetric rt (m_kind item) (m_value item) of
                         None \<Rightarrow> None
                       | Some n \<Rightarrow> if isFinite n then Some n else None))
   \<and> deriveMetric rt kind (JNum n) = (if isFinite n then Some n else None)
   \<and> (\<not> is_object raw \<and> (\<forall>n. raw \<noteq> JNum n) \<longrightarrow> deriveMetric rt kind raw = None)
   \<and> (is_object raw \<and> finiteFields rt raw congestionNames \<noteq> [] \<longrightarrow>
        (\<exists>m. deriveMetric rt ''traffic'' raw = Some m
           \<and> m \<in> set (finiteFields rt raw congestionNames)
           \<and> list_all (\<lambda>c. js_le c m) (finiteFields rt raw congestionNames)))
   \<and> (is_object raw \<and> finiteFields rt raw congestionNames = []
        \<and> Number rt (progressField raw) = Fin p \<longrightarrow>
        deriveMetric rt ''traffic'' raw = Some (if p \<le> 1 then rt_times rt p 100 else Fin p))
   \<and> (is_object raw \<and> finiteFields rt raw congestionNames = []
        \<and> \<not> isFinite (Number rt (progressField raw))
        \<and> finiteFields rt raw waitNames \<noteq> [] \<longrightarrow>
        (\<exists>m. deriveMetric rt ''traffic'' raw = Some m
           \<and> m \<in> set (finiteFields rt raw waitNames)
           \<and> list_all (\<lambda>w. js_le w m) (finiteFields rt raw waitNames)))
   \<and> (is_object raw \<and> finiteFields rt raw congestionNames = []
        \<and> \<not> isFinite (Number rt (progressField raw))
        \<and> finiteFields rt raw waitNames = [] \<longrightarrow>
        deriveMetric rt ''traffic'' raw = None)
   \<and> (is_object raw \<longrightarrow>
        deriveMetric rt ''rail'' raw =
          (if isFinite (Number rt (etaField raw)) then Some (Number rt (etaField raw)) else None))
   \<and> (is_object raw \<and> kind \<noteq> ''traffic'' \<and> kind \<noteq> ''rail'' \<longrightarrow>
        deriveMetric rt kind raw = None)"
proof -
  have c1: "post_ingest rt now body s = (IngestStored item, s') \<longrightarrow>
      m_metric item = (case deriveMetric rt (m_kind item) (m_value item) of
                         None \<Rightarrow> None
                       | Some n \<Rightarrow> if isFinite n then Some n else None)"
    using post_ingest_metric by blast
  have c2: "deriveMetric rt kind (JNum n) = (if isFinite n then Some n else None)"
    by (simp add: deriveMetric_def)
  have c3: "\<not> is_object raw \<and> (\<forall>n. raw \<noteq> JNum n) \<longrightarrow> deriveMetric rt kind raw = None"
    by (cases raw) (auto simp: deriveMetric_not_object)
  have c4: "is_object raw \<and> finiteFields rt raw congestionNames \<noteq> [] \<longrightarrow>
        (\<exists>m. deriveMetric rt ''traffic'' raw = Some m
           \<and> m \<in> set (finiteFields rt raw congestionNames)
           \<and> list_all (\<lambda>c. js_le c m) (finiteFields rt raw congestionNames))"
    using Math_max_list_finite [OF _ finiteFields_finite, of rt raw congestionNames]
    by (auto simp: deriveMetric_object)
  have c5: "is_object raw \<and> finiteFields rt raw congestionNames = []
        \<and> Number rt (progressField raw) = Fin p \<longrightarrow>
        deriveMetric rt ''traffic'' raw = Some (if p \<le> 1 then rt_times rt p 100 else Fin p)"
    by (auto simp: deriveMetric_object)
  have c6: "is_object raw \<and> finiteFields rt raw congestionNames = []
        \<and> \<not> isFinite (Number rt (progressField raw))
        \<and> finiteFields rt raw waitNames \<noteq> [] \<longrightarrow>
        (\<exists>m. deriveMetric rt ''traffic'' raw = Some m
           \<and> m \<in> set (finiteFields rt raw waitNames)
           \<and> list_all (\<lambda>w. js_le w m) (finiteFields rt raw waitNames))"
    using Math_max_list_finite [OF _ finiteFields_finite, of rt raw waitNames]
    by (auto simp: deriveMetric_object split: jsnum.splits)
  have c7: "is_object raw \<and> finiteFields rt raw congestionNames = []
        \<and> \<not> isFinite (Number rt (progressField raw))
        \<and> finiteFields rt raw waitNames = [] \<longrightarrow>
        deriveMetric rt ''traffic'' raw = None"
    by (auto simp: deriveMetric_object split: jsnum.splits)
  have c8: "is_object raw \<longrightarrow>
        deriveMetric rt ''rail'' raw =
          (if isFinite (Number rt (etaField raw)) then Some (Number rt (etaField raw)) else None)"
    by (auto simp: deriveMetric_object)
  have c9: "is_object raw \<and> kind \<noteq> ''traffic'' \<and> kind \<noteq> ''rail'' \<longrightarrow>
        deriveMetric rt kind raw = None"
    by (auto simp: deriveMetric_object)
  from c1 c2 c3 c4 c5 c6 c7 c8 c9 show ?thesis by blast
qed

lemma queue_and_wait_fields:
  "finiteFields sample_runtime queue_and_wait congestionNames = [Fin 5]"
  "finiteFields sample_runtime queue_and_wait waitNames = [Fin 50]"
  by (simp_all add: finiteFields_def queue_and_wait_def congestionNames_def waitNames_def
        sample_number)

lemma queue_and_wait_object: "is_object queue_and_wait" "queue_and_wait \<noteq> JUndefined"
  by (simp_all add: queue_and_wait_def)

lemma sample_fields:
  "finiteFields rt progress_only congestionNames = []"
  "Number rt (progressField progress_only) = Fin (1 / 2)"
  "finiteFields rt progress_overflow congestionNames = []"
  "Number rt (progressField progress_overflow) = Fin (- (2 ^ 1023))"
  "finiteFields rt wait_only congestionNames = []"
  "Number rt (progressField wait_only) = NaN"
  "finiteFields rt wait_only waitNames = [Fin 12, Fin 7]"
  "Number rt (etaField rail_eta) = Fin 18000"
  "is_object progress_only" "is_object progress_overflow" "is_object wait_only"
  "is_object rail_eta"
  by (simp_all add: finiteFields_def progress_only_def progress_overflow_def wait_only_def
        rail_eta_def congestionNames_def waitNames_def progressField_def etaField_def
        coalesce_def)

lemma empty_fields:
  "finiteFields rt (JObj []) congestionNames = []"
  "finiteFields rt (JObj []) waitNames = []"
  "Number rt (progressField (JObj [])) = NaN"
  by (simp_all add: finiteFields_def congestionNames_def waitNames_def progressField_def
        coalesce_def)

lemma overflow_stored:
  "post_ingest overflow_runtime 3
     \<lparr>b_kind = Some ''traffic'', b_location = Some ''A'', b_value = progress_overflow,
      b_ts = JUndefined\<rparr> mem_init
   = (IngestStored \<lparr>m_kind = ''traffic'', m_location = ''A'', m_value = progress_overflow,
                    m_metric = None, m_ts = Fin 3\<rparr>,
      upsertRecent ''traffic''
        \<lparr>m_kind = ''traffic'', m_location = ''A'', m_value = progress_overflow,
         m_metric = None, m_ts = Fin 3\<rparr> 200
        (mem_init\<lparr>measurements :=
           [\<lparr>m_kind = ''traffic'', m_location = ''A'', m_value = progress_overflow,
             m_metric = None, m_ts = Fin 3\<rparr>]\<rparr>))"
proof -
  have ne: "progress_overflow \<noteq> JUndefined" by (simp add: progress_overflow_def)
  have d: "deriveMetric overflow_runtime ''traffic'' progress_overflow = Some NegInf"
    by (simp add: deriveMetric_object sample_fields overflow_runtime_def)
  show ?thesis
    by (simp add: post_ingest_def Let_def d ne mem_init_def)
qed

theorem ingest_metric_witness:
  "is_object queue_and_wait
   \<and> finiteFields sample_runtime queue_and_wait congestionNames = [Fin 5]
   \<and> deriveMetric sample_runtime ''traffic'' queue_and_wait = Some (Fin 5)
   \<and> deriveMetric sample_runtime ''traffic'' progress_only = Some (Fin 50)
   \<and> deriveMetric overflow_runtime ''traffic'' progress_overflow = Some NegInf
   \<and> deriveMetric sample_runtime ''traffic'' wait_only = Some (Fin 12)
   \<and> deriveMetric sample_runtime ''rail'' rail_eta = Some (Fin 18000)
   \<and> deriveMetric sample_runtime ''traffic'' (JObj []) = None
   \<and> deriveMetric sample_runtime ''traffic'' (JStr ''busy'') = None
   \<and> deriveMetric sample_runtime ''bus'' rail_eta = None
   \<and> m_metric \<lparr>m_kind = ''traffic'', m_location = ''A'', m_value = progress_overflow,
                m_metric = None, m_ts = Fin 3\<rparr> = None"
proof -
  have a: "deriveMetric sample_runtime ''traffic'' queue_and_wait = Some (Fin 5)"
    using ingest_metric [of sample_runtime 0 undefined undefined undefined undefined
        "''traffic''" NaN queue_and_wait 0]
    by (simp add: queue_and_wait_fields queue_and_wait_object)
  have b: "deriveMetric sample_runtime ''traffic'' progress_only = Some (Fin 50)"
    using ingest_metric [of sample_runtime 0 undefined undefined undefined undefined
        "''traffic''" NaN progress_only "1 / 2"]
    by (simp add: sample_fields sample_times)
  have b': "deriveMetric overflow_runtime ''traffic'' progress_overflow = Some NegInf"
    using ingest_metric [of overflow_runtime 0 undefined undefined undefined undefined
        "''traffic''" NaN progress_overflow "- (2 ^ 1023)"]
    by (simp add: sample_fields overflow_runtime_def)
  have c: "deriveMetric sample_runtime ''traffic'' wait_only = Some (Fin 12)"
    using ingest_metric [of sample_runtime 0 undefined undefined undefined undefined
        "''traffic''" NaN wait_only 0]
    by (auto simp: sample_fields js_le_def)
  have d: "deriveMetric sample_runtime ''rail'' rail_eta = Some (Fin 18000)"
    using ingest_metric [of sample_runtime 0 undefined undefined undefined undefined
        "''traffic''" NaN rail_eta 0]
    by (simp add: sample_fields)
  have e: "deriveMetric sample_runtime ''traffic'' (JObj []) = None"
    using ingest_metric [of sample_runtime 0 undefined undefined undefined undefined
        "''traffic''" NaN "JObj []" 0]
    by (simp add: empty_fields)
  have f: "deriveMetric sample_runtime ''traffic'' (JStr ''busy'') = None"
    using ingest_metric [of sample_runtime 0 undefined undefined undefined undefined
        "''traffic''" NaN "JStr ''busy''" 0]
    by simp
  have g: "deriveMetric sample_runtime ''bus'' rail_eta = None"
    using ingest_metric [of sample_runtime 0 undefined undefined undefined undefined
        "''bus''" NaN rail_eta 0]
    by (simp add: sample_fields)
  have h: "m_metric \<lparr>m_kind = ''traffic'', m_location = ''A'', m_value = progress_overflow,
                m_metric = None, m_ts = Fin 3\<rparr> = None"
    using ingest_metric [of overflow_runtime 3
        "\<lparr>b_kind = Some ''traffic'', b_location = Some ''A'', b_value = progress_overflow,
          b_ts = JUndefined\<rparr>" mem_init
        "\<lparr>m_kind = ''traffic'', m_location = ''A'', m_value = progress_overflow,
          m_metric = None, m_ts = Fin 3\<rparr>"
        "upsertRecent ''traffic''
          \<lparr>m_kind = ''traffic'', m_location = ''A'', m_value = progress_overflow,
           m_metric = None, m_ts = Fin 3\<rparr> 200
          (mem_init\<lparr>measurements :=
             [\<lparr>m_kind = ''traffic'', m_location = ''A'', m_value = progress_overflow,
               m_metric = None, m_ts = Fin 3\<rparr>]\<rparr>)"
        "''traffic''" NaN progress_overflow 0]
      overflow_stored
    by simp
  from a b b' c d e f g h show ?thesis
    by (simp add: queue_and_wait_fields queue_and_wait_object)
qed

text \<open>
  C7 as stated fails: for the value \<^verbatim>\<open>{queue_ns: 5, wait_ns: 50}\<close> the stored metric is
  5, not the maximum 50 over the queue-like and wait-like properties.
\<close>

theorem ingest_metric_counterexample:
  "fst (post_ingest sample_runtime 1700000000000
          \<lparr>b_kind = Some ''traffic'', b_location = Some ''A'', b_value = queue_and_wait,
           b_ts = JUndefined\<rparr> mem_init)
     = IngestStored \<lparr>m_kind = ''traffic'', m_location = ''A'', m_value = queue_and_wait,
                     m_metric = Some (Fin 5), m_ts = Fin 1700000000000\<rparr>
   \<and> finiteFields sample_runtime queue_and_wait waitNames = [Fin 50]
   \<and> js_lt (Fin 5) (Fin 50)"
  by (simp add: post_ingest_def Let_def deriveMetric_object queue_and_wait_object
        queue_and_wait_fields Math_max_list_def Math_max_def)

section \<open>The pending queue is first-in first-out per kind\<close>

lemma findIndex_None: "(findIndex P xs = None) = (filter P xs = [])"
  by (induction xs) (auto split: option.splits)

lemma findIndex_Some:
  "findIndex P xs = Some i \<Longrightarrow>
     i < length xs \<and> P (xs ! i) \<and> filter P (take i xs) = []"
proof (induction xs arbitrary: i)
  case Nil
  then show ?case by simp
next
  case (Cons x xs)
  show ?case
  proof (cases "P x")
    case True
    with Cons.prems show ?thesis by simp
  next
    case False
    with Cons.prems obtain j where j: "findIndex P xs = Some j" "i = Suc j"
      by (auto split: option.splits)
    from Cons.IH [OF j(1)] False j(2) show ?thesis by simp
  qed
qed

lemma filter_remove_nth:
  assumes "i < length xs"
  shows "filter Q (take i xs @ drop (Suc i) xs) @ filter Q [xs ! i]
           = filter Q (take i xs) @ filter Q (drop (Suc i) xs) @ filter Q [xs ! i]"
    and "filter Q xs = filter Q (take i xs) @ filter Q [xs ! i] @ filter Q (drop (Suc i) xs)"
proof -
  show "filter Q (take i xs @ drop (Suc i) xs) @ filter Q [xs ! i]
           = filter Q (take i xs) @ filter Q (drop (Suc i) xs) @ filter Q [xs ! i]"
    by simp
  have "xs = take i xs @ xs ! i # drop (Suc i) xs"
    using assms by (rule id_take_nth_drop)
  then have "filter Q xs = filter Q (take i xs @ xs ! i # drop (Suc i) xs)" by simp
  then show "filter Q xs = filter Q (take i xs) @ filter Q [xs ! i] @ filter Q (drop (Suc i) xs)"
    by simp
qed

lemma get_next_result:
  "fst (get_next q s) = (case pending (queryKind q) s of [] \<Rightarrow> None | m # ms \<Rightarrow> Some m)"
proof (cases "findIndex (\<lambda>m. m_kind m = queryKind q) (measurements s)")
  case None
  have "pending (queryKind q) s = []"
    using None by (simp add: pending_def findIndex_None [symmetric])
  then show ?thesis using None by (simp add: get_next_def)
next
  case (Some i)
  note f = findIndex_Some [OF Some]
  from filter_remove_nth(2) [of i "measurements s" "\<lambda>m. m_kind m = queryKind q"] f
  have "pending (queryKind q) s
          = measurements s ! i # filter (\<lambda>m. m_kind m = queryKind q) (drop (Suc i) (measurements s))"
    by (simp add: pending_def)
  then show ?thesis using Some by (simp add: get_next_def)
qed

lemma get_next_pending:
  "pending k (snd (get_next q s)) = (if queryKind q = k then tl (pending k s) else pending k s)"
proof (cases "findIndex (\<lambda>m. m_kind m = queryKind q) (measurements s)")
  case None
  have "pending (queryKind q) s = []"
    using None by (simp add: pending_def findIndex_None [symmetric])
  with None show ?thesis by (auto simp: get_next_def)
next
  case (Some i)
  note f = findIndex_Some [OF Some]
  have s': "measurements (snd (get_next q s)) = take i (measurements s) @ drop (Suc i) (measurements s)"
    using Some by (simp add: get_next_def)
  show ?thesis
  proof (cases "queryKind q = k")
    case True
    from filter_remove_nth(2) [of i "measurements s" "\<lambda>m. m_kind m = k"] f True
    have "pending k s = measurements s ! i # filter (\<lambda>m. m_kind m = k) (drop (Suc i) (measurements s))"
      by (simp add: pending_def)
    moreover have "pending k (snd (get_next q s))
                     = filter (\<lambda>m. m_kind m = k) (drop (Suc i) (measurements s))"
      using f True by (simp add: pending_def s')
    ultimately show ?thesis using True by simp
  next
    case False
    from filter_remove_nth(2) [of i "measurements s" "\<lambda>m. m_kind m = k"] f False
    have "pending k s = filter (\<lambda>m. m_kind m = k) (take i (measurements s))
                        @ filter (\<lambda>m. m_kind m = k) (drop (Suc i) (measurements s))"
      by (simp add: pending_def)
    then show ?thesis using False by (simp add: pending_def s')
  qed
qed

lemma get_next_frame:
  "recent (snd (get_next q s)) = recent s"
  "latestByLocation (snd (get_next q s)) = latestByLocation s"
  "decisions (snd (get_next q s)) = decisions s"
  by (simp_all add: get_next_def Let_def split: option.splits)

lemma upsertRecent_measurements: "measurements (upsertRecent k item n s) = measurements s"
  by (simp add: upsertRecent_def Let_def)

lemma post_ingest_cases:
  "(\<exists>code msg. post_ingest rt now body s = (IngestRejected code msg, s))
   \<or> (\<exists>item. post_ingest rt now body s
                = (IngestStored item, upsertRecent (m_kind item) item 200
                                        (s\<lparr>measurements := measurements s @ [item]\<rparr>))
          \<and> b_kind body = Some (m_kind item) \<and> b_location body = Some (m_location item)
          \<and> m_value item = b_value body)"
  by (auto simp: post_ingest_def Let_def split: option.splits)

lemma post_ingest_pending:
  "post_ingest rt now body s = (r, s') \<Longrightarrow>
     pending k s' = pending k s @ storedOf k [IngestReply r]"
  using post_ingest_cases [of rt now body s]
  by (auto simp: pending_def upsertRecent_measurements)

lemma get_snapshot_store: "snd (get_snapshot rt now q l s) = s"
  by (simp add: get_snapshot_def Let_def)

lemma storedOf_append: "storedOf k (xs @ ys) = storedOf k xs @ storedOf k ys"
  by (induction k xs rule: storedOf.induct) auto

lemma serve_fifo:
  assumes "serve rt req s = (r, s')"
  shows "handedOut k [req] [r] @ pending k s' = pending k s @ storedOf k [r]"
proof (cases req)
  case (PostIngest now body)
  with assms obtain ir where ir: "post_ingest rt now body s = (ir, s')" "r = IngestReply ir"
    by (auto split: prod.splits)
  from post_ingest_pending [OF ir(1), of k] ir(2) PostIngest show ?thesis by simp
next
  case (GetNext q)
  with assms have r: "r = NextReply (fst (get_next q s))" and s': "s' = snd (get_next q s)"
    by (auto split: prod.splits)
  show ?thesis
    unfolding r s' GetNext get_next_pending get_next_result
    by (cases "pending k s") (auto split: list.splits)
next
  case (GetSnapshot now q l)
  with assms have "s' = s" and "\<exists>x. r = SnapshotReply x"
    using get_snapshot_store [of rt now q l s] by (auto split: prod.splits)
  then show ?thesis by auto
qed

lemma handedOut_Cons:
  "handedOut k (q # qs) (r # rs) = handedOut k [q] [r] @ handedOut k qs rs"
  by (cases "(k, q # qs, r # rs)" rule: handedOut.cases) auto

lemma storedOf_Cons: "storedOf k (r # rs) = storedOf k [r] @ storedOf k rs"
  using storedOf_append [of k "[r]" rs] by simp

lemma serveAll_fifo:
  "serveAll rt reqs s = (replies, s') \<Longrightarrow>
     handedOut k reqs replies @ pending k s' = pending k s @ storedOf k replies"
proof (induction reqs arbitrary: s replies s')
  case Nil
  then show ?case by simp
next
  case (Cons req reqs)
  obtain r s1 where step: "serve rt req s = (r, s1)" by (cases "serve rt req s")
  obtain rs s2 where rest: "serveAll rt reqs s1 = (rs, s2)" by (cases "serveAll rt reqs s1")
  from Cons.prems step rest have eq: "replies = r # rs" "s' = s2" by simp_all
  have "handedOut k (req # reqs) (r # rs) @ pending k s2
          = handedOut k [req] [r] @ (handedOut k reqs rs @ pending k s2)"
    by (subst handedOut_Cons) simp
  also have "\<dots> = handedOut k [req] [r] @ pending k s1 @ storedOf k rs"
    using Cons.IH [OF rest] by simp
  also have "\<dots> = pending k s @ storedOf k [r] @ storedOf k rs"
    using serve_fifo [OF step, of k] by simp
  also have "\<dots> = pending k s @ storedOf k (r # rs)"
    by (subst (2) storedOf_Cons) simp
  finally show ?case using eq by simp
qed

text \<open>
  C2. Over any run of the measurement routes from the empty store, and for every kind:
  the measurements handed out by \<^verbatim>\<open>GET /ingest/next\<close> for that kind, followed by those of
  the kind still pending, are exactly the measurements of the kind that \<^verbatim>\<open>POST /ingest\<close>
  stored, in the order it stored them. So they are handed out in ingestion order and each
  at most once. A single \<^verbatim>\<open>GET /ingest/next\<close> returns the oldest pending measurement of the
  kind and removes it from the pending queue, leaving other kinds untouched; it returns a
  null item exactly when none of the kind is pending.
\<close>

theorem ingest_fifo:
  "(serveAll rt reqs mem_init = (replies, s) \<longrightarrow>
      handedOut k reqs replies @ pending k s = storedOf k replies
      \<and> prefix (handedOut k reqs replies) (storedOf k replies))
   \<and> fst (get_next q s0) = (case pending (queryKind q) s0 of [] \<Rightarrow> None | m # ms \<Rightarrow> Some m)
   \<and> pending k (snd (get_next q s0)) = (if queryKind q = k then tl (pending k s0) else pending k s0)
   \<and> ((fst (get_next q s0) = None) = (pending (queryKind q) s0 = []))"
proof -
  have a: "serveAll rt reqs mem_init = (replies, s) \<longrightarrow>
      handedOut k reqs replies @ pending k s = storedOf k replies
      \<and> prefix (handedOut k reqs replies) (storedOf k replies)"
  proof
    assume run: "serveAll rt reqs mem_init = (replies, s)"
    have "pending k mem_init = []" by (simp add: pending_def mem_init_def)
    with serveAll_fifo [OF run, of k]
    have eq: "handedOut k reqs replies @ pending k s = storedOf k replies" by simp
    then have "prefix (handedOut k reqs replies) (storedOf k replies)"
      by (metis prefixI)
    with eq show "handedOut k reqs replies @ pending k s = storedOf k replies
      \<and> prefix (handedOut k reqs replies) (storedOf k replies)" by simp
  qed
  have d: "(fst (get_next q s0) = None) = (pending (queryKind q) s0 = [])"
    unfolding get_next_result by (simp split: list.splits)
  from a d get_next_result [of q s0] get_next_pending [of k q s0] show ?thesis by simp
qed

lemma sample_run:
  "serveAll sample_runtime sample_requests mem_init = (sample_replies, sample_store)"
  by (simp add: sample_requests_def sample_replies_def sample_store_def post_ingest_def
        get_next_def sample_body_def sample_measurement_def mem_init_def
        deriveMetric_def upsertRecent_def queryKind_def Let_def)

theorem ingest_fifo_witness:
  "serveAll sample_runtime sample_requests mem_init = (sample_replies, sample_store)
   \<and> handedOut ''traffic'' sample_requests sample_replies
       = [sample_measurement ''traffic'' ''A'' 20, sample_measurement ''traffic'' ''B'' 30]
   \<and> storedOf ''traffic'' sample_replies
       = [sample_measurement ''traffic'' ''A'' 20, sample_measurement ''traffic'' ''B'' 30]
   \<and> pending ''traffic'' sample_store = []
   \<and> fst (get_next (Some ''traffic'') sample_store) = None
   \<and> fst (get_next (Some ''rail'') sample_store) = Some (sample_measurement ''rail'' ''X1'' 10)"
proof -
  have p: "pending ''traffic'' sample_store = []"
          "pending ''rail'' sample_store = [sample_measurement ''rail'' ''X1'' 10]"
    by (simp_all add: pending_def sample_store_def sample_measurement_def)
  have h: "handedOut ''traffic'' sample_requests sample_replies
       = [sample_measurement ''traffic'' ''A'' 20, sample_measurement ''traffic'' ''B'' 30]"
    by (simp add: sample_requests_def sample_replies_def queryKind_def)
  from ingest_fifo [of sample_runtime sample_requests sample_replies sample_store "''traffic''"
      "Some ''traffic''" sample_store]
    ingest_fifo [of sample_runtime sample_requests sample_replies sample_store "''rail''"
      "Some ''rail''" sample_store]
    sample_run p h
  show ?thesis by (simp add: queryKind_def)
qed

section \<open>Snapshots read the store and show the latest measurement per location\<close>

lemma latestFor_append:
  "latestFor l (ms @ [m]) = (if m_location m = l then Some m else latestFor l ms)"
  by (simp add: latestFor_def Let_def)

lemma latestMap_upsert:
  "latestMap k (upsertRecent k' item n s) =
     (if k' = k then AList.update (m_location item) item (latestMap k s) else latestMap k s)"
  by (simp add: latestMap_def upsertRecent_def Let_def)

lemma latest_inv_post:
  assumes "post_ingest rt now body s = (r, s')" and "latest_inv k s ms"
  shows "latest_inv k s' (ms @ storedOf k [IngestReply r])"
proof -
  from post_ingest_cases [of rt now body s] show ?thesis
  proof
    assume "\<exists>code msg. post_ingest rt now body s = (IngestRejected code msg, s)"
    with assms show ?thesis by auto
  next
    assume "\<exists>item. post_ingest rt now body s
                = (IngestStored item, upsertRecent (m_kind item) item 200
                                        (s\<lparr>measurements := measurements s @ [item]\<rparr>))
          \<and> b_kind body = Some (m_kind item) \<and> b_location body = Some (m_location item)
          \<and> m_value item = b_value body"
    then obtain item where item:
      "post_ingest rt now body s
         = (IngestStored item, upsertRecent (m_kind item) item 200
                                 (s\<lparr>measurements := measurements s @ [item]\<rparr>))"
      by blast
    with assms(1) have r: "r = IngestStored item"
      and s': "s' = upsertRecent (m_kind item) item 200 (s\<lparr>measurements := measurements s @ [item]\<rparr>)"
      by simp_all
    have base: "latestMap k (s\<lparr>measurements := measurements s @ [item]\<rparr>) = latestMap k s"
      by (simp add: latestMap_def)
    show ?thesis
    proof (cases "m_kind item = k")
      case True
      then have lm: "latestMap k s' = AList.update (m_location item) item (latestMap k s)"
        by (simp add: s' latestMap_upsert base)
      show ?thesis
        using assms(2) True
        by (auto simp: latest_inv_def lm r distinct_update update_conv' latestFor_append)
    next
      case False
      then have "latestMap k s' = latestMap k s"
        by (simp add: s' latestMap_upsert base)
      with assms(2) False show ?thesis by (simp add: latest_inv_def r)
    qed
  qed
qed

lemma latest_inv_serve:
  assumes "serve rt req s = (r, s')" and "latest_inv k s ms"
  shows "latest_inv k s' (ms @ storedOf k [r])"
proof (cases req)
  case (PostIngest now body)
  with assms(1) obtain ir where ir: "post_ingest rt now body s = (ir, s')" "r = IngestReply ir"
    by (auto split: prod.splits)
  from latest_inv_post [OF ir(1) assms(2)] ir(2) show ?thesis by simp
next
  case (GetNext q)
  with assms(1) have "s' = snd (get_next q s)" and "\<exists>x. r = NextReply x"
    by (auto split: prod.splits)
  with assms(2) show ?thesis
    by (auto simp: latest_inv_def latestMap_def get_next_frame)
next
  case (GetSnapshot now q l)
  with assms(1) have "s' = s" and "\<exists>x. r = SnapshotReply x"
    using get_snapshot_store [of rt now q l s] by (auto split: prod.splits)
  with assms(2) show ?thesis by auto
qed

lemma latest_inv_serveAll:
  "serveAll rt reqs s = (replies, s') \<Longrightarrow> latest_inv k s ms \<Longrightarrow>
     latest_inv k s' (ms @ storedOf k replies)"
proof (induction reqs arbitrary: s replies s' ms)
  case Nil
  then show ?case by simp
next
  case (Cons req reqs)
  obtain r s1 where step: "serve rt req s = (r, s1)" by (cases "serve rt req s")
  obtain rs s2 where rest: "serveAll rt reqs s1 = (rs, s2)" by (cases "serveAll rt reqs s1")
  from Cons.prems(1) step rest have eq: "replies = r # rs" "s' = s2" by simp_all
  from latest_inv_serve [OF step Cons.prems(2)]
  have "latest_inv k s1 (ms @ storedOf k [r])" .
  from Cons.IH [OF rest this] have "latest_inv k s2 ((ms @ storedOf k [r]) @ storedOf k rs)" .
  then show ?case unfolding eq by (subst storedOf_Cons) simp
qed

lemma latestFor_location:
  assumes "latestFor l ms = Some m"
  shows "m_location m = l"
proof -
  from assms have ne: "filter (\<lambda>m. m_location m = l) ms \<noteq> []"
    and m: "m = last (filter (\<lambda>m. m_location m = l) ms)"
    by (auto simp: latestFor_def Let_def split: if_splits)
  from ne have "last (filter (\<lambda>m. m_location m = l) ms) \<in> set (filter (\<lambda>m. m_location m = l) ms)"
    by (rule last_in_set)
  then show ?thesis using m by simp
qed

lemma filter_distinct_key:
  "distinct (map fst al) \<Longrightarrow>
     filter (\<lambda>p. fst p = l) al = (case map_of al l of None \<Rightarrow> [] | Some v \<Rightarrow> [(l, v)])"
proof (induction al)
  case Nil
  then show ?case by simp
next
  case (Cons p al)
  obtain a b where p: "p = (a, b)" by (cases p)
  show ?case
  proof (cases "a = l")
    case True
    with Cons.prems p have "map_of al l = None"
      by (simp add: map_of_eq_None_iff)
    with Cons True p show ?thesis by simp
  next
    case False
    with Cons p show ?thesis by simp
  qed
qed

lemma snapshot_latest_entries:
  assumes "latest_inv k s ms"
  shows "filter (\<lambda>e. se_location e = l) (map (toSnapshotEntry rt k) (map snd (latestMap k s)))
           = (case latestFor l ms of None \<Rightarrow> [] | Some m \<Rightarrow> [toSnapshotEntry rt k m])"
proof -
  from assms have d: "distinct (map fst (latestMap k s))"
    and m: "\<And>l. map_of (latestMap k s) l = latestFor l ms"
    by (simp_all add: latest_inv_def)
  have key: "\<And>p. p \<in> set (latestMap k s) \<Longrightarrow> m_location (snd p) = fst p"
  proof -
    fix p assume "p \<in> set (latestMap k s)"
    then have "(fst p, snd p) \<in> set (latestMap k s)" by simp
    with d have "map_of (latestMap k s) (fst p) = Some (snd p)"
      by (rule map_of_is_SomeI)
    then show "m_location (snd p) = fst p"
      using m latestFor_location by simp
  qed
  have loc: "se_location (toSnapshotEntry rt k x) = m_location x" for x
    by (simp add: toSnapshotEntry_def Let_def)
  have "filter (\<lambda>e. se_location e = l) (map (toSnapshotEntry rt k) (map snd (latestMap k s)))
          = map (toSnapshotEntry rt k) (map snd (filter (\<lambda>p. m_location (snd p) = l) (latestMap k s)))"
    by (simp add: filter_map comp_def loc)
  also have "filter (\<lambda>p. m_location (snd p) = l) (latestMap k s)
               = filter (\<lambda>p. fst p = l) (latestMap k s)"
    using key by (intro filter_cong) auto
  also have "\<dots> = (case latestFor l ms of None \<Rightarrow> [] | Some v \<Rightarrow> [(l, v)])"
    using filter_distinct_key [OF d, of l] m by simp
  finally show ?thesis by (simp split: option.splits)
qed

text \<open>
  C9. \<^verbatim>\<open>GET /ingest/snapshot\<close> returns the store as it was, so a \<^verbatim>\<open>GET /ingest/next\<close> after it
  returns what it would have returned without it. After any run of the measurement
  routes from the empty store, the \<^verbatim>\<open>latest\<close> collection of a snapshot of a kind holds, for
  every location, exactly one entry when a measurement of that kind and location was
  stored, and it is the entry of the one stored last; it holds no entry for a location
  otherwise.
\<close>

theorem snapshot_read_only:
  "snd (get_snapshot rt now q limitRaw s0) = s0
   \<and> get_next q' (snd (get_snapshot rt now q limitRaw s0)) = get_next q' s0
   \<and> (serveAll rt reqs mem_init = (replies, s) \<longrightarrow>
        filter (\<lambda>e. se_location e = l) (sr_latest (fst (get_snapshot rt now q limitRaw s)))
          = (case latestFor l (storedOf (queryKind q) replies) of
               None \<Rightarrow> []
             | Some m \<Rightarrow> [toSnapshotEntry rt (queryKind q) m]))"
proof -
  have "serveAll rt reqs mem_init = (replies, s) \<longrightarrow>
        filter (\<lambda>e. se_location e = l) (sr_latest (fst (get_snapshot rt now q limitRaw s)))
          = (case latestFor l (storedOf (queryKind q) replies) of
               None \<Rightarrow> []
             | Some m \<Rightarrow> [toSnapshotEntry rt (queryKind q) m])"
  proof
    assume run: "serveAll rt reqs mem_init = (replies, s)"
    have "latest_inv (queryKind q) mem_init []"
      by (simp add: latest_inv_def latestMap_def mem_init_def latestFor_def)
    from latest_inv_serveAll [OF run this]
    have inv: "latest_inv (queryKind q) s (storedOf (queryKind q) replies)" by simp
    have "sr_latest (fst (get_snapshot rt now q limitRaw s))
            = map (toSnapshotEntry rt (queryKind q)) (map snd (latestMap (queryKind q) s))"
      by (simp add: get_snapshot_def Let_def latestMap_def)
    then show "filter (\<lambda>e. se_location e = l) (sr_latest (fst (get_snapshot rt now q limitRaw s)))
          = (case latestFor l (storedOf (queryKind q) replies) of
               None \<Rightarrow> []
             | Some m \<Rightarrow> [toSnapshotEntry rt (queryKind q) m])"
      using snapshot_latest_entries [OF inv, of l rt] by simp
  qed
  then show ?thesis by (simp add: get_snapshot_store)
qed

lemma repeat_run:
  "serveAll sample_runtime repeat_requests mem_init = (repeat_replies, repeat_store)"
  by (simp add: repeat_requests_def repeat_replies_def repeat_store_def post_ingest_def
        sample_body_def sample_measurement_def mem_init_def deriveMetric_def upsertRecent_def
        Let_def)

theorem snapshot_read_only_witness:
  "serveAll sample_runtime repeat_requests mem_init = (repeat_replies, repeat_store)
   \<and> filter (\<lambda>e. se_location e = ''A'')
        (sr_latest (fst (get_snapshot sample_runtime 9 (Some ''traffic'') (Fin 50) repeat_store)))
       = [\<lparr>se_location = ''A'', se_value = Fin 7, se_metric = Some (Fin 7),
           se_details = JNum (Fin 7), se_ts = Fin 40\<rparr>]
   \<and> fst (get_next (Some ''traffic'')
             (snd (get_snapshot sample_runtime 9 (Some ''traffic'') (Fin 50) repeat_store)))
       = Some (sample_measurement ''traffic'' ''A'' 20)"
proof -
  have l: "latestFor ''A'' (storedOf ''traffic'' repeat_replies)
             = Some (sample_measurement ''traffic'' ''A'' 40)"
    by (simp add: latestFor_def repeat_replies_def sample_measurement_def)
  have e: "toSnapshotEntry sample_runtime ''traffic'' (sample_measurement ''traffic'' ''A'' 40)
             = \<lparr>se_location = ''A'', se_value = Fin 7, se_metric = Some (Fin 7),
                se_details = JNum (Fin 7), se_ts = Fin 40\<rparr>"
    by (simp add: toSnapshotEntry_def sample_measurement_def)
  have n: "fst (get_next (Some ''traffic'') repeat_store) = Some (sample_measurement ''traffic'' ''A'' 20)"
    by (simp add: get_next_def repeat_store_def queryKind_def sample_measurement_def Let_def)
  from snapshot_read_only [of sample_runtime 9 "Some ''traffic''" "Fin 50" repeat_store
      "Some ''traffic''" repeat_requests repeat_replies repeat_store "''A''"]
    repeat_run l e n
  show ?thesis by (simp add: queryKind_def)
qed

section \<open>Consensus errors and the wait budget\<close>

lemma trim_plain [simp]:
  "trim sample_runtime ''A'' = ''A''" "trim sample_runtime ''X1'' = ''X1''"
  "trim sample_runtime ''agent'' = ''agent''" "trim sample_runtime ''fallback'' = ''fallback''"
  by (simp_all add: sample_trim ascii_trim_def is_space_def)

lemma rejecting_submit:
  "submitDecisionToConsensus rejecting_ledger ag e = Inl ''INVALID_SIGNATURE''"
  by (simp add: submitDecisionToConsensus_def rejecting_ledger_def)

lemma infer_route_consensus_error:
  assumes "parse (coalesce (field (coalesce body (JObj [])) ''observation'')
                           (coalesce body (JObj []))) = Inr obs"
    and "oracle obs = Inr inference" and "inference \<noteq> JNull" and "inference \<noteq> JUndefined"
    and "\<And>e. submitDecisionToConsensus ledger ag e = Inl err"
  shows "infer_route rt ag parse outcomeName withJunction ledger oracle now body b
           = (inferenceFailed rt err, b)"
  using assms by (simp add: infer_route_def Let_def)

text \<open>
  C1 fails on the inference routes. With a valid observation, an inference service that
  answers and a ledger that rejects the submission, \<^verbatim>\<open>POST /control/traffic/infer\<close> replies
  502 with the ledger's error and leaves the decision log as it was: nothing is recorded.
\<close>

theorem traffic_infer_consensus_error:
  "post_traffic_infer sample_runtime rejecting_ledger plan_oracle 1700000000000 infer_body backend_init
     = (Failed 502 ''INVALID_SIGNATURE'', backend_init)"
  by (simp add: post_traffic_infer_def infer_route_def infer_body_def plan_oracle_def
        parseTrafficObservation_def optNumber_def coalesce_def coerceLocation_def
        coerceString_def Let_def rejecting_submit inferenceFailed_def sample_lower
        lower_char_def)


lemma log_accepted:
  assumes "agentRawOf rt (coalesce body (JObj [])) = ''traffic''
           \<or> agentRawOf rt (coalesce body (JObj [])) = ''rail''"
  shows "post_decisions_log rt ledger waitRaw winner now body b =
     (let entry = logEntryOf rt now (coalesce body (JObj []));
          a = next_addr b;
          b1 = snd (alloc entry b)
      in if consensusWaitMs waitRaw = 0 \<or> winner = TimeoutFirst
         then (Replied (logReply entry None True), record_entry a b1, Some a)
         else (Replied (logReply entry
                          (fst (consensusWithUpdate
                                  (submitDecisionToConsensus ledger (agent entry) entry) a b1))
                          False),
               record_entry a
                 (snd (consensusWithUpdate
                         (submitDecisionToConsensus ledger (agent entry) entry) a b1)),
               None))"
  using assms
  by (auto simp: post_decisions_log_def Let_def alloc_def split: prod.splits)

lemma consensusWithUpdate_rejected:
  "consensusWithUpdate (Inl err) a b = (None, b)"
  "consensusWithUpdate (Inr None) a b = (None, b)"
  by (simp_all add: consensusWithUpdate_def)

text \<open>
  The log route, for comparison: when the submission is rejected the entry is recorded
  all the same, without consensus fields, and the request is answered with a reply.
\<close>

lemma log_consensus_error:
  assumes "agentRawOf rt (coalesce body (JObj [])) = ''traffic''
           \<or> agentRawOf rt (coalesce body (JObj [])) = ''rail''"
    and "submitDecisionToConsensus ledger
           (agent (logEntryOf rt now (coalesce body (JObj []))))
           (logEntryOf rt now (coalesce body (JObj []))) = Inl err"
  shows "\<exists>rep pend.
           post_decisions_log rt ledger waitRaw winner now body b
             = (Replied rep, record_entry (next_addr b)
                               (snd (alloc (logEntryOf rt now (coalesce body (JObj []))) b)), pend)
           \<and> lr_consensus rep = None"
  using assms(2)
  by (simp add: log_accepted [OF assms(1)] Let_def consensusWithUpdate_rejected logReply_def)

text \<open>
  C8. When the wait budget is 0, an accepted \<^verbatim>\<open>POST /control/decisions/log\<close> replies with
  \<^verbatim>\<open>consensusPending = true\<close> and a null \<^verbatim>\<open>consensus\<close>, whatever the ledger does and however
  fast: the reply and the backend at that moment do not depend on the submission. The
  entry is recorded at once, with no consensus fields, and its submission is still in
  flight. When the submission is confirmed later, the callback writes the three consensus
  fields into that stored entry and changes nothing else; a rejection or a null result
  changes nothing.
\<close>

theorem log_wait_zero:
  assumes "consensusWaitMs waitRaw = 0"
    and "agentRawOf rt (coalesce body (JObj [])) = ''traffic''
         \<or> agentRawOf rt (coalesce body (JObj [])) = ''rail''"
    and "entry = logEntryOf rt now (coalesce body (JObj []))"
    and "b' = record_entry (next_addr b) (snd (alloc entry b))"
  shows "post_decisions_log rt ledger waitRaw winner now body b
           = (Replied (logReply entry None True), b', Some (next_addr b))
         \<and> lr_consensusPending (logReply entry None True)
         \<and> lr_consensus (logReply entry None True) = None
         \<and> decisions (mem b') = recordDecision (next_addr b) (decisions (mem b))
         \<and> objects b' (next_addr b) = Some entry
         \<and> topicId entry = None \<and> consensusTimestamp entry = None \<and> sequenceNumber entry = None
         \<and> consensusWithUpdate (Inr (Some c)) (next_addr b) b'
             = (Some c, b'\<lparr>objects := (objects b')(next_addr b \<mapsto>
                              entry\<lparr>topicId := Some (c_topicId c),
                                    sequenceNumber := c_sequenceNumber c,
                                    consensusTimestamp := c_consensusTimestamp c\<rparr>)\<rparr>)
         \<and> consensusWithUpdate (Inr None) (next_addr b) b' = (None, b')
         \<and> consensusWithUpdate (Inl err) (next_addr b) b' = (None, b')"
proof -
  have run: "post_decisions_log rt ledger waitRaw winner now body b
           = (Replied (logReply entry None True), b', Some (next_addr b))"
    using assms(1) by (simp add: log_accepted [OF assms(2)] Let_def assms(3) assms(4))
  have obj: "objects b' (next_addr b) = Some entry"
    by (simp add: assms(4) record_entry_def alloc_def)
  have dec: "decisions (mem b') = recordDecision (next_addr b) (decisions (mem b))"
    by (simp add: assms(4) record_entry_def alloc_def)
  have fields: "topicId entry = None \<and> consensusTimestamp entry = None \<and> sequenceNumber entry = None"
    by (simp add: assms(3) logEntryOf_def)
  have late: "consensusWithUpdate (Inr (Some c)) (next_addr b) b'
             = (Some c, b'\<lparr>objects := (objects b')(next_addr b \<mapsto>
                              entry\<lparr>topicId := Some (c_topicId c),
                                    sequenceNumber := c_sequenceNumber c,
                                    consensusTimestamp := c_consensusTimestamp c\<rparr>)\<rparr>)"
    by (simp add: consensusWithUpdate_def obj)
  from run obj dec fields late show ?thesis
    by (simp add: consensusWithUpdate_rejected logReply_def)
qed

lemma log_body_entry:
  "coalesce log_body (JObj []) = log_body"
  "agentRawOf sample_runtime log_body = ''rail''"
  "logEntryOf sample_runtime 5 log_body = log_entry"
  by (simp_all add: log_body_def log_entry_def coalesce_def agentRawOf_def logEntryOf_def
        sample_lower lower_char_def coerceLocation_def coerceString_def
        normalizeReasoning_def)

theorem log_wait_zero_witness:
  "consensusWaitMs (Fin 0) = 0
   \<and> post_decisions_log sample_runtime confirming_ledger (Fin 0) ConsensusFirst 5 log_body
        backend_init
       = (Replied \<lparr>lr_stored = \<lparr>st_agent = rail, st_location = Some ''X1'',
                                st_status = ''APPLIED'', st_ts = 1700000000000\<rparr>,
                   lr_consensus = None, lr_consensusPending = True, lr_reasoning = JNull\<rparr>,
          \<lparr>mem = mem_init\<lparr>decisions := [0]\<rparr>, objects = [0 \<mapsto> log_entry], next_addr = 1\<rparr>,
          Some 0)"
proof -
  have w: "consensusWaitMs (Fin 0) = 0" by (simp add: consensusWaitMs_def)
  have b: "record_entry (next_addr backend_init) (snd (alloc log_entry backend_init))
             = \<lparr>mem = mem_init\<lparr>decisions := [0]\<rparr>, objects = [0 \<mapsto> log_entry], next_addr = 1\<rparr>"
    by (simp add: record_entry_def alloc_def backend_init_def mem_init_def recordDecision_def
          DECISION_HISTORY_LIMIT_def)
  have r: "logReply log_entry None True
             = \<lparr>lr_stored = \<lparr>st_agent = rail, st_location = Some ''X1'',
                              st_status = ''APPLIED'', st_ts = 1700000000000\<rparr>,
                 lr_consensus = None, lr_consensusPending = True, lr_reasoning = JNull\<rparr>"
    by (simp add: logReply_def log_entry_def coalesce_def)
  from log_wait_zero [of "Fin 0" sample_runtime log_body log_entry 5
      "\<lparr>mem = mem_init\<lparr>decisions := [0]\<rparr>, objects = [0 \<mapsto> log_entry], next_addr = 1\<rparr>"
      backend_init confirming_ledger ConsensusFirst]
    w b r
  show ?thesis by (simp add: log_body_entry backend_init_def)
qed

section \<open>The latest decision per agent and location\<close>

lemma latestStep_cases:
  "latestStep rt af m e =
     (if \<not> passesFilter af e then m
      else case map_of m (decisionKey rt e) of
             None \<Rightarrow> AList.update (decisionKey rt e) e m
           | Some current \<Rightarrow> if ts e > ts current then AList.update (decisionKey rt e) e m else m)"
  by (simp add: latestStep_def passesFilter_def split: option.splits)

lemma firstGreatest_split:
  "firstGreatest rt af e ds =
     (\<exists>before after.
        ds = before @ e # after
        \<and> (\<forall>x \<in> set before.
              passesFilter af x \<and> decisionKey rt x = decisionKey rt e \<longrightarrow> ts x < ts e)
        \<and> (\<forall>x \<in> set after.
              passesFilter af x \<and> decisionKey rt x = decisionKey rt e \<longrightarrow> ts x \<le> ts e))"
proof (induction ds)
  case Nil
  then show ?case by simp
next
  case (Cons y ys)
  show ?case
  proof
    assume "firstGreatest rt af e (y # ys)"
    then consider
      (here) "y = e"
        "list_all (\<lambda>x. passesFilter af x \<and> decisionKey rt x = decisionKey rt e \<longrightarrow> ts x \<le> ts e) ys"
      | (later) "passesFilter af y \<and> decisionKey rt y = decisionKey rt e \<longrightarrow> ts y < ts e"
        "firstGreatest rt af e ys"
      by auto
    then show "\<exists>before after.
        y # ys = before @ e # after
        \<and> (\<forall>x \<in> set before.
              passesFilter af x \<and> decisionKey rt x = decisionKey rt e \<longrightarrow> ts x < ts e)
        \<and> (\<forall>x \<in> set after.
              passesFilter af x \<and> decisionKey rt x = decisionKey rt e \<longrightarrow> ts x \<le> ts e)"
    proof cases
      case here
      then have "y # ys = [] @ e # ys
        \<and> (\<forall>x \<in> set []. passesFilter af x \<and> decisionKey rt x = decisionKey rt e \<longrightarrow> ts x < ts e)
        \<and> (\<forall>x \<in> set ys. passesFilter af x \<and> decisionKey rt x = decisionKey rt e \<longrightarrow> ts x \<le> ts e)"
        by (simp add: list_all_iff)
      then show ?thesis by blast
    next
      case later
      with Cons.IH obtain b a where ba: "ys = b @ e # a"
        "\<forall>x \<in> set b. passesFilter af x \<and> decisionKey rt x = decisionKey rt e \<longrightarrow> ts x < ts e"
        "\<forall>x \<in> set a. passesFilter af x \<and> decisionKey rt x = decisionKey rt e \<longrightarrow> ts x \<le> ts e"
        by blast
      with later(1) have "y # ys = (y # b) @ e # a
        \<and> (\<forall>x \<in> set (y # b). passesFilter af x \<and> decisionKey rt x = decisionKey rt e \<longrightarrow> ts x < ts e)
        \<and> (\<forall>x \<in> set a. passesFilter af x \<and> decisionKey rt x = decisionKey rt e \<longrightarrow> ts x \<le> ts e)"
        by simp
      then show ?thesis by blast
    qed
  next
    assume "\<exists>before after.
        y # ys = before @ e # after
        \<and> (\<forall>x \<in> set before.
              passesFilter af x \<and> decisionKey rt x = decisionKey rt e \<longrightarrow> ts x < ts e)
        \<and> (\<forall>x \<in> set after.
              passesFilter af x \<and> decisionKey rt x = decisionKey rt e \<longrightarrow> ts x \<le> ts e)"
    then obtain b a where ba: "y # ys = b @ e # a"
        "\<forall>x \<in> set b. passesFilter af x \<and> decisionKey rt x = decisionKey rt e \<longrightarrow> ts x < ts e"
        "\<forall>x \<in> set a. passesFilter af x \<and> decisionKey rt x = decisionKey rt e \<longrightarrow> ts x \<le> ts e"
      by blast
    show "firstGreatest rt af e (y # ys)"
    proof (cases b)
      case Nil
      with ba show ?thesis by (simp add: list_all_iff)
    next
      case (Cons z zs)
      with ba have "y = z" "ys = zs @ e # a" by simp_all
      moreover from ba(2) Cons have
        "passesFilter af z \<and> decisionKey rt z = decisionKey rt e \<longrightarrow> ts z < ts e"
        "\<forall>x \<in> set zs. passesFilter af x \<and> decisionKey rt x = decisionKey rt e \<longrightarrow> ts x < ts e"
        by simp_all
      ultimately show ?thesis using Cons.IH ba(3) by auto
    qed
  qed
qed

lemma firstGreatest_max:
  assumes "firstGreatest rt af e ds"
  shows "e \<in> set ds"
    and "\<And>x. x \<in> set ds \<Longrightarrow> passesFilter af x \<Longrightarrow> decisionKey rt x = decisionKey rt e
           \<Longrightarrow> ts x \<le> ts e"
proof -
  from assms obtain b a where ba: "ds = b @ e # a"
      "\<forall>x \<in> set b. passesFilter af x \<and> decisionKey rt x = decisionKey rt e \<longrightarrow> ts x < ts e"
      "\<forall>x \<in> set a. passesFilter af x \<and> decisionKey rt x = decisionKey rt e \<longrightarrow> ts x \<le> ts e"
    unfolding firstGreatest_split by blast
  from ba(1) show "e \<in> set ds" by simp
  show "ts x \<le> ts e"
    if "x \<in> set ds" "passesFilter af x" "decisionKey rt x = decisionKey rt e" for x
  proof -
    from that(1) ba(1) consider "x \<in> set b" | "x = e" | "x \<in> set a" by auto
    then show ?thesis
    proof cases
      case 1
      with ba(2) that have "ts x < ts e" by blast
      then show ?thesis by simp
    next
      case 2
      then show ?thesis by simp
    next
      case 3
      with ba(3) that show ?thesis by blast
    qed
  qed
qed

lemma firstGreatest_snoc:
  assumes "firstGreatest rt af e seen"
    and "passesFilter af d \<and> decisionKey rt d = decisionKey rt e \<longrightarrow> ts d \<le> ts e"
  shows "firstGreatest rt af e (seen @ [d])"
proof -
  from assms(1) obtain b a where ba: "seen = b @ e # a"
      "\<forall>x \<in> set b. passesFilter af x \<and> decisionKey rt x = decisionKey rt e \<longrightarrow> ts x < ts e"
      "\<forall>x \<in> set a. passesFilter af x \<and> decisionKey rt x = decisionKey rt e \<longrightarrow> ts x \<le> ts e"
    unfolding firstGreatest_split by blast
  with assms(2) have "seen @ [d] = b @ e # (a @ [d])
      \<and> (\<forall>x \<in> set b. passesFilter af x \<and> decisionKey rt x = decisionKey rt e \<longrightarrow> ts x < ts e)
      \<and> (\<forall>x \<in> set (a @ [d]).
            passesFilter af x \<and> decisionKey rt x = decisionKey rt e \<longrightarrow> ts x \<le> ts e)"
    by simp
  then show ?thesis unfolding firstGreatest_split by blast
qed

lemma firstGreatest_new:
  assumes "\<And>x. x \<in> set seen \<Longrightarrow> passesFilter af x \<Longrightarrow> decisionKey rt x = decisionKey rt d
             \<Longrightarrow> ts x < ts d"
  shows "firstGreatest rt af d (seen @ [d])"
proof -
  from assms have "seen @ [d] = seen @ d # []
      \<and> (\<forall>x \<in> set seen. passesFilter af x \<and> decisionKey rt x = decisionKey rt d \<longrightarrow> ts x < ts d)
      \<and> (\<forall>x \<in> set []. passesFilter af x \<and> decisionKey rt x = decisionKey rt d \<longrightarrow> ts x \<le> ts d)"
    by simp
  then show ?thesis unfolding firstGreatest_split by blast
qed

lemma firstGreatest_unique:
  "firstGreatest rt af x ds \<Longrightarrow> firstGreatest rt af e ds \<Longrightarrow> passesFilter af x
     \<Longrightarrow> passesFilter af e \<Longrightarrow> decisionKey rt x = decisionKey rt e \<Longrightarrow> x = e"
proof (induction ds)
  case Nil
  then show ?case by simp
next
  case (Cons y ys)
  show ?case
  proof (cases "y = x")
    case yx: True
    show ?thesis
    proof (cases "y = e")
      case True
      with yx show ?thesis by simp
    next
      case False
      with Cons.prems(2) have lt: "passesFilter af y \<and> decisionKey rt y = decisionKey rt e \<longrightarrow> ts y < ts e"
        and fe: "firstGreatest rt af e ys" by auto
      from lt yx Cons.prems have "ts x < ts e" by simp
      moreover from firstGreatest_max(2) [OF Cons.prems(1), of e] firstGreatest_max(1) [OF fe]
        Cons.prems have "ts e \<le> ts x" by simp
      ultimately show ?thesis by simp
    qed
  next
    case nyx: False
    with Cons.prems(1) have ltx: "passesFilter af y \<and> decisionKey rt y = decisionKey rt x \<longrightarrow> ts y < ts x"
      and fx: "firstGreatest rt af x ys" by auto
    show ?thesis
    proof (cases "y = e")
      case True
      with ltx Cons.prems have "ts e < ts x" by simp
      moreover from firstGreatest_max(2) [OF Cons.prems(2), of x] firstGreatest_max(1) [OF fx]
        Cons.prems have "ts x \<le> ts e" by simp
      ultimately show ?thesis by simp
    next
      case False
      with Cons.prems(2) have "firstGreatest rt af e ys" by auto
      from Cons.IH [OF fx this Cons.prems(3,4,5)] show ?thesis .
    qed
  qed
qed

lemma latest_map_inv_step:
  assumes inv: "latest_map_inv rt af seen m"
  shows "latest_map_inv rt af (seen @ [e]) (latestStep rt af m e)"
proof -
  from inv have d: "distinct (map fst m)"
    and ent: "\<And>k x. map_of m k = Some x \<Longrightarrow>
                k = decisionKey rt x \<and> passesFilter af x \<and> firstGreatest rt af x seen"
    and cov: "\<And>x. x \<in> set seen \<Longrightarrow> passesFilter af x \<Longrightarrow> map_of m (decisionKey rt x) \<noteq> None"
    unfolding latest_map_inv_def by blast+
  have keep: "k = decisionKey rt x \<and> passesFilter af x \<and> firstGreatest rt af x (seen @ [e])"
    if "map_of m k = Some x"
      "passesFilter af e \<and> decisionKey rt e = k \<longrightarrow> ts e \<le> ts x" for k x
  proof -
    from ent [OF that(1)] have k: "k = decisionKey rt x" and p: "passesFilter af x"
      and f: "firstGreatest rt af x seen" by simp_all
    from that(2) k have "passesFilter af e \<and> decisionKey rt e = decisionKey rt x \<longrightarrow> ts e \<le> ts x"
      by simp
    from firstGreatest_snoc [OF f this] k p show ?thesis by simp
  qed
  show ?thesis
  proof (cases "passesFilter af e")
    case False
    then have step: "latestStep rt af m e = m" by (simp add: latestStep_cases)
    show ?thesis
      unfolding step latest_map_inv_def
    proof (intro conjI allI impI ballI)
      show "distinct (map fst m)" by (rule d)
    next
      fix k x assume a: "map_of m k = Some x"
      from keep [OF a] False
      show "k = decisionKey rt x" "passesFilter af x" "firstGreatest rt af x (seen @ [e])"
        by simp_all
    next
      fix dd assume "dd \<in> set (seen @ [e])" "passesFilter af dd"
      with False cov show "map_of m (decisionKey rt dd) \<noteq> None" by auto
    qed
  next
    case True
    have replaced: "latest_map_inv rt af (seen @ [e]) (AList.update (decisionKey rt e) e m)"
      if older: "\<And>x. x \<in> set seen \<Longrightarrow> passesFilter af x
                  \<Longrightarrow> decisionKey rt x = decisionKey rt e \<Longrightarrow> ts x < ts e"
      unfolding latest_map_inv_def
    proof (intro conjI allI impI ballI)
      show "distinct (map fst (AList.update (decisionKey rt e) e m))"
        using d by (simp add: distinct_update)
    next
      fix k x assume a: "map_of (AList.update (decisionKey rt e) e m) k = Some x"
      have "k = decisionKey rt x \<and> passesFilter af x \<and> firstGreatest rt af x (seen @ [e])"
      proof (cases "k = decisionKey rt e")
        case same: True
        with a have xe: "x = e" by (simp add: update_conv')
        have "firstGreatest rt af e (seen @ [e])"
          by (rule firstGreatest_new) (simp add: older)
        with same True show ?thesis unfolding xe by simp
      next
        case False
        with a have "map_of m k = Some x" by (simp add: update_conv')
        from keep [OF this] False show ?thesis by auto
      qed
      then show "k = decisionKey rt x" "passesFilter af x" "firstGreatest rt af x (seen @ [e])"
        by simp_all
    next
      fix dd assume "dd \<in> set (seen @ [e])" "passesFilter af dd"
      then show "map_of (AList.update (decisionKey rt e) e m) (decisionKey rt dd) \<noteq> None"
        using cov by (auto simp: update_conv')
    qed
    show ?thesis
    proof (cases "map_of m (decisionKey rt e)")
      case None
      then have step: "latestStep rt af m e = AList.update (decisionKey rt e) e m"
        using True by (simp add: latestStep_cases)
      have "ts x < ts e"
        if "x \<in> set seen" "passesFilter af x" "decisionKey rt x = decisionKey rt e" for x
        using cov [OF that(1,2)] that(3) None by simp
      from replaced [OF this] show ?thesis unfolding step .
    next
      case (Some current)
      note cur = ent [OF Some]
      show ?thesis
      proof (cases "ts e > ts current")
        case newer: True
        then have step: "latestStep rt af m e = AList.update (decisionKey rt e) e m"
          using True Some by (simp add: latestStep_cases)
        have "ts x < ts e"
          if "x \<in> set seen" "passesFilter af x" "decisionKey rt x = decisionKey rt e" for x
        proof -
          from cur have f: "firstGreatest rt af current seen"
            and k: "decisionKey rt e = decisionKey rt current" by simp_all
          from firstGreatest_max(2) [OF f that(1,2)] that(3) k have "ts x \<le> ts current" by simp
          with newer show ?thesis by simp
        qed
        from replaced [OF this] show ?thesis unfolding step .
      next
        case older: False
        then have step: "latestStep rt af m e = m"
          using True Some by (simp add: latestStep_cases)
        show ?thesis
          unfolding step latest_map_inv_def
        proof (intro conjI allI impI ballI)
          show "distinct (map fst m)" by (rule d)
        next
          fix k x assume a: "map_of m k = Some x"
          have "passesFilter af e \<and> decisionKey rt e = k \<longrightarrow> ts e \<le> ts x"
            using a Some older by auto
          from keep [OF a this]
          show "k = decisionKey rt x" "passesFilter af x" "firstGreatest rt af x (seen @ [e])"
            by simp_all
        next
          fix dd assume "dd \<in> set (seen @ [e])" "passesFilter af dd"
          then show "map_of m (decisionKey rt dd) \<noteq> None"
            using cov Some by auto
        qed
      qed
    qed
  qed
qed

lemma latest_map_inv_foldl:
  "latest_map_inv rt af seen m \<Longrightarrow>
     latest_map_inv rt af (seen @ ds) (foldl (latestStep rt af) m ds)"
proof (induction ds arbitrary: seen m)
  case Nil
  then show ?case by simp
next
  case (Cons e ds)
  from Cons.IH [OF latest_map_inv_step [OF Cons.prems, of e]] show ?case by simp
qed

lemma latestByKey_inv: "latest_map_inv rt af ds (latestByKey rt af ds)"
proof -
  have "latest_map_inv rt af [] []" by (simp add: latest_map_inv_def)
  from latest_map_inv_foldl [OF this, of ds] show ?thesis by (simp add: latestByKey_def)
qed

lemma latestByKey_entries:
  "distinct (map fst (latestByKey rt af ds))"
  "p \<in> set (latestByKey rt af ds) \<Longrightarrow>
     fst p = decisionKey rt (snd p) \<and> passesFilter af (snd p)
     \<and> firstGreatest rt af (snd p) ds"
  "d \<in> set ds \<Longrightarrow> passesFilter af d \<Longrightarrow> decisionKey rt d \<in> fst ` set (latestByKey rt af ds)"
proof -
  note inv = latestByKey_inv [of rt af ds, unfolded latest_map_inv_def]
  from inv show dist: "distinct (map fst (latestByKey rt af ds))" by blast
  show "fst p = decisionKey rt (snd p) \<and> passesFilter af (snd p)
     \<and> firstGreatest rt af (snd p) ds"
    if "p \<in> set (latestByKey rt af ds)"
  proof -
    from that have "(fst p, snd p) \<in> set (latestByKey rt af ds)" by simp
    with dist have "map_of (latestByKey rt af ds) (fst p) = Some (snd p)"
      by (rule map_of_is_SomeI)
    with inv show ?thesis by blast
  qed
  show "decisionKey rt d \<in> fst ` set (latestByKey rt af ds)"
    if "d \<in> set ds" "passesFilter af d"
  proof -
    from that inv have "map_of (latestByKey rt af ds) (decisionKey rt d) \<noteq> None" by blast
    then obtain y where "map_of (latestByKey rt af ds) (decisionKey rt d) = Some y" by auto
    then have "(decisionKey rt d, y) \<in> set (latestByKey rt af ds)" by (rule map_of_SomeD)
    then show ?thesis by force
  qed
qed

lemma latestItems_unbounded:
  "latestItems rt af None ds = sort_key (\<lambda>e. - ts e) (map snd (latestByKey rt af ds))"
  "latestItems rt af (Some n) ds = (if n = 0 then latestItems rt af None ds else take n (latestItems rt af None ds))"
  by (simp_all add: latestItems_def Let_def)

lemma latestItems_set:
  "set (latestItems rt af None ds) = snd ` set (latestByKey rt af ds)"
  by (simp add: latestItems_unbounded)

lemma latestItems_sorted: "sorted_wrt (\<lambda>a b. ts b \<le> ts a) (latestItems rt af None ds)"
proof -
  have "sorted (map (\<lambda>e. - ts e) (latestItems rt af None ds))"
    unfolding latestItems_unbounded by (rule sorted_sort_key)
  then show ?thesis by (simp add: sorted_map)
qed

lemma latestItems_distinct: "distinct (map (decisionKey rt) (latestItems rt af None ds))"
proof -
  have keys: "map (decisionKey rt) (map snd (latestByKey rt af ds)) = map fst (latestByKey rt af ds)"
    using latestByKey_entries(2) [of _ rt af ds] by (simp add: comp_def)
  have "distinct (map (decisionKey rt) (map snd (latestByKey rt af ds)))"
    unfolding keys by (rule latestByKey_entries(1))
  then have "distinct (map snd (latestByKey rt af ds))
             \<and> inj_on (decisionKey rt) (set (map snd (latestByKey rt af ds)))"
    by (simp only: distinct_map)
  then show ?thesis
    unfolding latestItems_unbounded by (simp add: distinct_map)
qed

lemma limitOf_cases:
  "limitOf (Fin l) = (if 1 \<le> l then Some (nat (min 100 \<lfloor>l\<rfloor>)) else if 0 < l then Some 0 else None)"
  "limitOf NaN = None" "limitOf PosInf = None" "limitOf NegInf = None"
proof -
  have "0 < l \<Longrightarrow> \<not> 1 \<le> l \<Longrightarrow> \<lfloor>l\<rfloor> = 0" by linarith
  then show "limitOf (Fin l) = (if 1 \<le> l then Some (nat (min 100 \<lfloor>l\<rfloor>)) else if 0 < l then Some 0 else None)"
    by (auto simp: limitOf_def)
qed (simp_all add: limitOf_def)

text \<open>
  C4 (as the code has it). The key of an entry is the text \<^verbatim>\<open>agent::location\<close>, lower-cased
  as a whole by \<^verbatim>\<open>toLowerCase\<close> (a missing location reads \<^verbatim>\<open>__unknown__\<close>); a group is the
  entries of one key. Without a limit, the result has one entry per group: the keys of its
  entries are distinct, and every entry of the log that passes the agent filter has its
  group in the result. Each entry of the result is an entry of the log that passes the
  filter and whose timestamp is the greatest in its group, the first recorded when several
  have that timestamp; this determines the entry. The result is sorted by timestamp, newest
  first. A limit \<open>n\<close> other than 0 cuts it to its first \<open>n\<close> entries, and a limit of 0 does
  not cut it. The limit of a request is \<open>min 100 \<lfloor>l\<rfloor>\<close> for a finite \<open>l \<ge> 1\<close>, is 0 for
  \<open>0 < l < 1\<close>, and is absent otherwise. The agent filter is the agent that the query,
  lower-cased, names, and absent for any other query.
\<close>

theorem latest_per_key:
  "distinct (map (decisionKey rt) (latestItems rt af None ds))
   \<and> decisionKey rt d = toLowerCase rt (agentName (agent d) @ ''::'' @ locationKey d)
   \<and> (d \<in> set ds \<and> passesFilter af d \<longrightarrow>
        (\<exists>x \<in> set (latestItems rt af None ds). decisionKey rt x = decisionKey rt d))
   \<and> (e \<in> set (latestItems rt af None ds) \<longrightarrow>
        e \<in> set ds \<and> passesFilter af e \<and> firstGreatest rt af e ds
        \<and> (\<forall>x \<in> set ds. passesFilter af x \<and> decisionKey rt x = decisionKey rt e \<longrightarrow> ts x \<le> ts e))
   \<and> (firstGreatest rt af d ds \<and> firstGreatest rt af e ds \<and> passesFilter af d
        \<and> passesFilter af e \<and> decisionKey rt d = decisionKey rt e \<longrightarrow> d = e)
   \<and> sorted_wrt (\<lambda>a b. ts b \<le> ts a) (latestItems rt af None ds)
   \<and> latestItems rt af (Some n) ds
       = (if n = 0 then latestItems rt af None ds else take n (latestItems rt af None ds))
   \<and> limitOf (Fin l) = (if 1 \<le> l then Some (nat (min 100 \<lfloor>l\<rfloor>)) else if 0 < l then Some 0 else None)
   \<and> limitOf NaN = None \<and> limitOf PosInf = None \<and> limitOf NegInf = None
   \<and> (1 \<le> l \<longrightarrow>
        latestItems rt af (limitOf (Fin l)) ds = take (nat (min 100 \<lfloor>l\<rfloor>)) (latestItems rt af None ds)
        \<and> real (length (latestItems rt af (limitOf (Fin l)) ds)) \<le> min 100 l)
   \<and> passesFilter None e \<and> passesFilter (Some a) e = (agent e = a)
   \<and> agentFilterOf rt None = None
   \<and> agentFilterOf rt (Some s)
       = (if toLowerCase rt s = ''traffic'' then Some traffic
          else if toLowerCase rt s = ''rail'' then Some rail else None)
   \<and> lt_items (get_decisions_latest rt agent_q limitRaw now b)
       = map toLatestItem (latestItems rt (agentFilterOf rt agent_q) (limitOf limitRaw) (logEntries b))"
proof -
  have c2: "decisionKey rt d = toLowerCase rt (agentName (agent d) @ ''::'' @ locationKey d)"
    by (simp add: decisionKey_def locationKey_def)
  have c3: "d \<in> set ds \<and> passesFilter af d \<longrightarrow>
        (\<exists>x \<in> set (latestItems rt af None ds). decisionKey rt x = decisionKey rt d)"
  proof
    assume a: "d \<in> set ds \<and> passesFilter af d"
    then have "decisionKey rt d \<in> fst ` set (latestByKey rt af ds)"
      using latestByKey_entries(3) by blast
    then obtain p where p: "p \<in> set (latestByKey rt af ds)" "fst p = decisionKey rt d" by force
    from latestByKey_entries(2) [OF p(1)] p(2) have "decisionKey rt (snd p) = decisionKey rt d" by simp
    moreover have "snd p \<in> set (latestItems rt af None ds)"
      using p(1) by (simp add: latestItems_set)
    ultimately show "\<exists>x \<in> set (latestItems rt af None ds). decisionKey rt x = decisionKey rt d" by blast
  qed
  have c4: "e \<in> set (latestItems rt af None ds) \<longrightarrow>
        e \<in> set ds \<and> passesFilter af e \<and> firstGreatest rt af e ds
        \<and> (\<forall>x \<in> set ds. passesFilter af x \<and> decisionKey rt x = decisionKey rt e \<longrightarrow> ts x \<le> ts e)"
  proof
    assume "e \<in> set (latestItems rt af None ds)"
    then obtain p where p: "p \<in> set (latestByKey rt af ds)" "snd p = e"
      by (auto simp: latestItems_set)
    from latestByKey_entries(2) [OF p(1)] p(2)
    have pe: "passesFilter af e" and fe: "firstGreatest rt af e ds" by auto
    from pe fe firstGreatest_max [OF fe]
    show "e \<in> set ds \<and> passesFilter af e \<and> firstGreatest rt af e ds
        \<and> (\<forall>x \<in> set ds. passesFilter af x \<and> decisionKey rt x = decisionKey rt e \<longrightarrow> ts x \<le> ts e)"
      by blast
  qed
  have c4': "firstGreatest rt af d ds \<and> firstGreatest rt af e ds \<and> passesFilter af d
        \<and> passesFilter af e \<and> decisionKey rt d = decisionKey rt e \<longrightarrow> d = e"
    using firstGreatest_unique by blast
  have c8: "1 \<le> l \<longrightarrow>
        latestItems rt af (limitOf (Fin l)) ds = take (nat (min 100 \<lfloor>l\<rfloor>)) (latestItems rt af None ds)
        \<and> real (length (latestItems rt af (limitOf (Fin l)) ds)) \<le> min 100 l"
  proof
    assume l: "1 \<le> l"
    then have fl: "1 \<le> \<lfloor>l\<rfloor>" by linarith
    then have pos: "nat (min 100 \<lfloor>l\<rfloor>) \<noteq> 0" by (simp add: min_def)
    have eq: "latestItems rt af (limitOf (Fin l)) ds
                = take (nat (min 100 \<lfloor>l\<rfloor>)) (latestItems rt af None ds)"
      using l pos by (simp add: limitOf_cases latestItems_unbounded(2))
    have "length (latestItems rt af (limitOf (Fin l)) ds) \<le> nat (min 100 \<lfloor>l\<rfloor>)"
      unfolding eq by simp
    then have "real (length (latestItems rt af (limitOf (Fin l)) ds)) \<le> real (nat (min 100 \<lfloor>l\<rfloor>))"
      by simp
    also have "real (nat (min 100 \<lfloor>l\<rfloor>)) \<le> min 100 l"
    proof -
      have "real (nat (min 100 \<lfloor>l\<rfloor>)) = of_int (min 100 \<lfloor>l\<rfloor>)"
        using fl by (simp add: min_def)
      also have "\<dots> = min 100 (of_int \<lfloor>l\<rfloor>)"
        by (simp add: min_def)
      also have "\<dots> \<le> min 100 l"
        by (rule min.mono) simp_all
      finally show ?thesis .
    qed
    finally show "latestItems rt af (limitOf (Fin l)) ds
                    = take (nat (min 100 \<lfloor>l\<rfloor>)) (latestItems rt af None ds)
        \<and> real (length (latestItems rt af (limitOf (Fin l)) ds)) \<le> min 100 l"
      using eq by simp
  qed
  have c9: "passesFilter None e \<and> passesFilter (Some a) e = (agent e = a)"
    by (simp add: passesFilter_def)
  have c10: "agentFilterOf rt None = None
   \<and> agentFilterOf rt (Some s)
       = (if toLowerCase rt s = ''traffic'' then Some traffic
          else if toLowerCase rt s = ''rail'' then Some rail else None)"
    by (simp add: agentFilterOf_def)
  have c11: "lt_items (get_decisions_latest rt agent_q limitRaw now b)
       = map toLatestItem (latestItems rt (agentFilterOf rt agent_q) (limitOf limitRaw) (logEntries b))"
    by (simp add: get_decisions_latest_def)
  note c1 = latestItems_distinct [of rt af ds]
  note c5 = latestItems_sorted [of rt af ds]
  have c6: "latestItems rt af (Some n) ds
       = (if n = 0 then latestItems rt af None ds else take n (latestItems rt af None ds))"
    by (rule latestItems_unbounded(2))
  have c7: "limitOf (Fin l) = (if 1 \<le> l then Some (nat (min 100 \<lfloor>l\<rfloor>)) else if 0 < l then Some 0 else None)
   \<and> limitOf NaN = None \<and> limitOf PosInf = None \<and> limitOf NegInf = None"
    using limitOf_cases by blast
  show ?thesis
    by (intro conjI) (use c1 c2 c3 c4 c4' c5 c6 c7 c8 c9 c10 c11 in blast)+
qed

lemma sample_log_latest:
  "latestItems sample_runtime None None sample_log
     = [sample_decision traffic (Some ''a'') 30, sample_decision rail None 20]"
  "latestItems sample_runtime (Some rail) None sample_log = [sample_decision rail None 20]"
  by (simp_all add: latestItems_def latestByKey_def latestStep_def sample_log_def
        sample_decision_def decisionKey_def agentName_def sample_lower lower_char_def Let_def)

theorem latest_per_key_witness:
  "latestItems sample_runtime None None sample_log
     = [sample_decision traffic (Some ''a'') 30, sample_decision rail None 20]
   \<and> latestItems sample_runtime (Some rail) None sample_log = [sample_decision rail None 20]
   \<and> latestItems sample_runtime None (limitOf (Fin (3 / 2))) sample_log
       = [sample_decision traffic (Some ''a'') 30]
   \<and> sample_decision traffic (Some ''A'') 30 \<in> set sample_log
   \<and> decisionKey sample_runtime (sample_decision traffic (Some ''A'') 30) = ''traffic::a''
   \<and> decisionKey sample_runtime (sample_decision traffic (Some ''a'') 30) = ''traffic::a''
   \<and> firstGreatest sample_runtime None (sample_decision traffic (Some ''a'') 30) sample_log
   \<and> \<not> firstGreatest sample_runtime None (sample_decision traffic (Some ''A'') 30) sample_log"
proof -
  have f: "\<lfloor>3 / 2 :: real\<rfloor> = 1" by linarith
  have m: "sample_decision traffic (Some ''A'') 30 \<in> set sample_log"
    by (simp add: sample_log_def)
  have k: "decisionKey sample_runtime (sample_decision traffic (Some ''A'') 30) = ''traffic::a''"
    "decisionKey sample_runtime (sample_decision traffic (Some ''a'') 30) = ''traffic::a''"
    by (simp_all add: decisionKey_def sample_decision_def agentName_def sample_lower
          lower_char_def)
  have p: "passesFilter None x" for x by (simp add: passesFilter_def)
  have ne: "sample_decision traffic (Some ''A'') 30 \<noteq> sample_decision traffic (Some ''a'') 30"
    by (simp add: sample_decision_def)
  note t = latest_per_key [where rt = sample_runtime and af = None and ds = sample_log
      and l = "3 / 2" and e = "sample_decision traffic (Some ''a'') 30"
      and d = "sample_decision traffic (Some ''A'') 30"]
  from t sample_log_latest have fg:
    "firstGreatest sample_runtime None (sample_decision traffic (Some ''a'') 30) sample_log"
    by simp
  from t fg ne k p have nfg:
    "\<not> firstGreatest sample_runtime None (sample_decision traffic (Some ''A'') 30) sample_log"
    by metis
  from t sample_log_latest f have cut:
    "latestItems sample_runtime None (limitOf (Fin (3 / 2))) sample_log
       = [sample_decision traffic (Some ''a'') 30]"
    by simp
  from sample_log_latest cut m k fg nfg show ?thesis by simp
qed

text \<open>
  C4 as stated fails on the limit: \<^verbatim>\<open>limit=0.5\<close> is finite and positive, yet the reply
  is not cut at all; it has two items.
\<close>

theorem latest_limit_counterexample:
  "isFinite (Fin (1 / 2)) \<and> js_gt (Fin (1 / 2)) (Fin 0)
   \<and> lt_items (get_decisions_latest sample_runtime None (Fin (1 / 2)) 99 backend_two)
       = [toLatestItem (sample_decision rail (Some ''X1'') 20),
          toLatestItem (sample_decision traffic (Some ''A'') 10)]
   \<and> \<not> real (length (lt_items (get_decisions_latest sample_runtime None (Fin (1 / 2)) 99 backend_two)))
          \<le> min (1 / 2) 100"
proof -
  have f: "\<lfloor>1 / 2 :: real\<rfloor> = 0" by linarith
  have l: "limitOf (Fin (1 / 2)) = Some 0" by (simp add: limitOf_def f)
  have e: "logEntries backend_two
             = [sample_decision traffic (Some ''A'') 10, sample_decision rail (Some ''X1'') 20]"
    by (simp add: logEntries_def backend_two_def)
  have i: "latestItems sample_runtime None (Some 0)
             [sample_decision traffic (Some ''A'') 10, sample_decision rail (Some ''X1'') 20]
           = [sample_decision rail (Some ''X1'') 20, sample_decision traffic (Some ''A'') 10]"
    by (simp add: latestItems_def latestByKey_def latestStep_def sample_decision_def
          decisionKey_def agentName_def sample_lower lower_char_def Let_def)
  show ?thesis
    by (simp add: get_decisions_latest_def agentFilterOf_def l e i js_gt_def)
qed

end
